theory Spec2Isabelle
  imports Main "HOL-Library.Sublist" "HOL-Library.Multiset"
begin

section \<open>Strings of the host language\<close>

text \<open>
  Source text is a \<open>string\<close>; the functions below are the string methods the
  visualizer project calls: \<open>str.split\<close> with a one-character separator,
  \<open>str.join\<close> on a newline, \<open>str.strip\<close> without argument,
  \<open>str.startswith\<close>, and the decimal rendering an f-string gives a
  non-negative integer.
\<close>

fun split_on :: "char \<Rightarrow> string \<Rightarrow> string list" where
  "split_on sep [] = [[]]"
| "split_on sep (c # cs) =
     (if c = sep then [] # split_on sep cs
      else (case split_on sep cs of
              [] \<Rightarrow> [[c]]
            | p # ps \<Rightarrow> (c # p) # ps))"

fun join_with :: "char \<Rightarrow> string list \<Rightarrow> string" where
  "join_with sep [] = []"
| "join_with sep [l] = l"
| "join_with sep (l # ls) = l @ sep # join_with sep ls"

definition is_space :: "char \<Rightarrow> bool" where
  \<comment> \<open>\<open>str.isspace\<close> on the code points below 256\<close>
  "is_space c \<longleftrightarrow>
     (of_char c :: nat) \<in> {9, 10, 11, 12, 13, 28, 29, 30, 31, 32, 133, 160}"

definition strip :: "string \<Rightarrow> string" where
  "strip s = rev (dropWhile is_space (rev (dropWhile is_space s)))"

definition startswith :: "string \<Rightarrow> string \<Rightarrow> bool" where
  "startswith s p \<longleftrightarrow> take (length p) s = p"

definition digit_char :: "nat \<Rightarrow> char" where
  "digit_char d = char_of (48 + d)"

function show_nat :: "nat \<Rightarrow> string" where
  "show_nat n = (if n < 10 then [digit_char n] else show_nat (n div 10) @ [digit_char (n mod 10)])"
  by pat_completeness auto
termination
  by (relation "measure id") auto

declare show_nat.simps [simp del]

section \<open>Source instrumenter (visualizer.py, memory\_visualizer.py)\<close>

text \<open>
  \<open>CodeVisualizer.instrument_code\<close> and \<open>MemoryVisualizer._instrument_code\<close>
  share one loop; they differ in the text of the two injected statements and in the
  final statement the memory variant appends. The loop state is the pair
  \<open>(instrumented_lines, line_no)\<close>.
\<close>

definition trace_line_stmt :: "nat \<Rightarrow> string" where
  "trace_line_stmt line_no = ''__trace_line__('' @ show_nat line_no @ '')''"

definition trace_var_stmt :: "string \<Rightarrow> string" where
  "trace_var_stmt var_name =
     ''__trace_var__('' @ [CHR 0x22] @ var_name @ [CHR 0x22] @ '', '' @ var_name @ '')''"

definition take_snapshot_stmt :: "nat \<Rightarrow> string" where
  "take_snapshot_stmt line_no = ''__memory_tracker__.take_snapshot('' @ show_nat line_no @ '')''"

definition record_memory_stmt :: "string \<Rightarrow> string" where
  "record_memory_stmt var_name =
     ''__record_memory__('' @ [CHR 0x22] @ var_name @ [CHR 0x22] @ '', '' @ var_name @ '')''"

definition is_code_line :: "string \<Rightarrow> bool" where
  \<comment> \<open>\<open>line.strip() and not line.strip().startswith('#')\<close>\<close>
  "is_code_line line \<longleftrightarrow> strip line \<noteq> [] \<and> \<not> startswith (strip line) ''#''"

definition has_bracket :: "string \<Rightarrow> bool" where
  \<comment> \<open>\<open>any(c in var_name for c in '([{')\<close>\<close>
  "has_bracket var_name \<longleftrightarrow> list_ex (\<lambda>c. c \<in> set var_name) ''([{''"

definition var_stmts :: "(string \<Rightarrow> string) \<Rightarrow> string \<Rightarrow> string list" where
  \<comment> \<open>the statements the assignment heuristic injects for one line\<close>
  "var_stmts mk_var line =
     (if CHR ''='' \<in> set line \<and> \<not> startswith (strip line) ''def '' then
        (let parts = split_on (CHR ''='') line in
         if length parts \<ge> 2 then
           (let var_name = strip (hd parts) in
            if \<not> has_bracket var_name \<and> \<not> startswith (strip line) ''def ''
            then [mk_var var_name] else [])
         else [])
      else [])"

definition instrument_step ::
  "(nat \<Rightarrow> string) \<Rightarrow> (string \<Rightarrow> string) \<Rightarrow> string \<Rightarrow> string list \<times> nat \<Rightarrow> string list \<times> nat" where
  "instrument_step mk_line mk_var line st =
     (case st of (instrumented_lines, line_no) \<Rightarrow>
        (if is_code_line line
         then (instrumented_lines @ [mk_line line_no] @ var_stmts mk_var line @ [line], line_no + 1)
         else (instrumented_lines @ [line], line_no + 1)))"

definition instrument_loop ::
  "(nat \<Rightarrow> string) \<Rightarrow> (string \<Rightarrow> string) \<Rightarrow> string list \<Rightarrow> string list \<times> nat" where
  "instrument_loop mk_line mk_var lines = fold (instrument_step mk_line mk_var) lines ([], 1)"

definition instrument_code :: "string \<Rightarrow> string" where
  "instrument_code code =
     (let lines = split_on (CHR 0x0A) code;
          (instrumented_lines, line_no) = instrument_loop trace_line_stmt trace_var_stmt lines
      in join_with (CHR 0x0A) instrumented_lines)"

definition memory_instrument_code :: "string \<Rightarrow> string" where
  \<comment> \<open>\<open>MemoryVisualizer._instrument_code\<close>\<close>
  "memory_instrument_code code =
     (let lines = split_on (CHR 0x0A) code;
          (instrumented_lines, line_no) = instrument_loop take_snapshot_stmt record_memory_stmt lines
      in join_with (CHR 0x0A) (instrumented_lines @ [take_snapshot_stmt line_no]))"

section \<open>Syntax trees\<close>

text \<open>
  The trees come from the host language's \<open>ast.parse\<close>, which is not part of the
  repository. A tree node is seen the way \<open>ast.iter_fields\<close> shows it: the name of
  its class, its \<open>lineno\<close> attribute when it has one, and its fields in declaration
  order. A field holds a node, a list, or a plain value (an identifier, a constant,
  \<open>None\<close>).

  The parser gives every node all the fields of its class (\<open>name\<close> on a
  \<open>FunctionDef\<close>, \<open>func\<close> on a \<open>Call\<close>, \<open>id\<close> on a
  \<open>Name\<close>, \<open>attr\<close> on an \<open>Attribute\<close>), so the attribute reads
  of the source cannot fail on its output; on a tree without such a field the model reads
  the test as not matching.
\<close>

datatype pyraw = PyNone | PyBool bool | PyInt int | PyStr string | PyOpaque string

datatype pyobj =
    Node string "int option" "(string \<times> pyobj) list"
  | PyList "pyobj list"
  | Value pyraw

definition show_int :: "int \<Rightarrow> string" where
  "show_int i = (if i < 0 then ''-'' @ show_nat (nat (- i)) else show_nat (nat i))"

fun is_ast :: "pyobj \<Rightarrow> bool" where
  "is_ast (Node c l fs) = True"
| "is_ast _ = False"

fun iter_fields :: "pyobj \<Rightarrow> (string \<times> pyobj) list" where
  "iter_fields (Node c l fs) = fs"
| "iter_fields _ = []"

fun is_instance :: "pyobj \<Rightarrow> string \<Rightarrow> bool" where
  "is_instance (Node c l fs) cls = (c = cls)"
| "is_instance _ cls = False"

definition getattr :: "pyobj \<Rightarrow> string \<Rightarrow> pyobj option" where
  "getattr node f = map_of (iter_fields node) f"

definition str_attr :: "pyobj \<Rightarrow> string \<Rightarrow> string option" where
  "str_attr node f = (case getattr node f of Some (Value (PyStr s)) \<Rightarrow> Some s | _ \<Rightarrow> None)"

fun field_nodes :: "pyobj \<Rightarrow> pyobj list" where
  "field_nodes (Node c l fs) = [Node c l fs]"
| "field_nodes (PyList items) = filter is_ast items"
| "field_nodes (Value v) = []"

definition iter_child_nodes :: "pyobj \<Rightarrow> pyobj list" where
  "iter_child_nodes node = concat (map (\<lambda>(name, field). field_nodes field) (iter_fields node))"

fun tree_size :: "pyobj \<Rightarrow> nat" where
  "tree_size (Node c l fs) = Suc (sum_list (map (\<lambda>(name, field). tree_size field) fs))"
| "tree_size (PyList items) = Suc (sum_list (map tree_size items))"
| "tree_size (Value v) = 1"

lemma field_nodes_size: "sum_list (map tree_size (field_nodes v)) \<le> tree_size v"
proof (cases v)
  case (PyList items)
  have "sum_list (map tree_size (filter is_ast items)) \<le> sum_list (map tree_size items)"
    by (induction items) auto
  with PyList show ?thesis by simp
qed auto

lemma iter_child_nodes_size:
  "is_ast n \<Longrightarrow> sum_list (map tree_size (iter_child_nodes n)) < tree_size n"
proof (cases n)
  case (Node c l fs)
  have "sum_list (map tree_size (concat (map (\<lambda>(name, field). field_nodes field) fs)))
          \<le> sum_list (map (\<lambda>(name, field). tree_size field) fs)"
  proof (induction fs)
    case (Cons f fs)
    obtain k v where f: "f = (k, v)" by (cases f)
    from Cons field_nodes_size [of v] show ?case by (simp add: f)
  qed simp
  with Node show ?thesis by (simp add: iter_child_nodes_def)
qed auto

lemma iter_child_nodes_not_ast: "\<not> is_ast n \<Longrightarrow> iter_child_nodes n = []"
  by (cases n) (auto simp: iter_child_nodes_def)

text \<open>\<open>ast.walk\<close>: breadth first, from a queue that starts with the root.\<close>

function walk_queue :: "pyobj list \<Rightarrow> pyobj list" where
  "walk_queue [] = []"
| "walk_queue (node # todo) = node # walk_queue (todo @ iter_child_nodes node)"
  by pat_completeness auto
termination
proof (relation "measure (\<lambda>todo. sum_list (map tree_size todo))")
  show "wf (measure (\<lambda>todo. sum_list (map tree_size todo)))" by simp
next
  fix node :: pyobj and todo :: "pyobj list"
  show "(todo @ iter_child_nodes node, node # todo) \<in> measure (\<lambda>todo. sum_list (map tree_size todo))"
  proof (cases "is_ast node")
    case True
    from iter_child_nodes_size [OF True] show ?thesis by simp
  next
    case False
    have "0 < tree_size node" by (cases node) auto
    with iter_child_nodes_not_ast [OF False] show ?thesis by simp
  qed
qed

definition walk :: "pyobj \<Rightarrow> pyobj list" where
  "walk tree = walk_queue [tree]"

text \<open>
  The nodes of a tree, listed from the tree itself (each node, then the nodes below each
  of its children in turn) rather than from the queue of the walk.
\<close>

lemma child_smaller: "x \<in> set (iter_child_nodes n) \<Longrightarrow> tree_size x < tree_size n"
proof (cases "is_ast n")
  case True
  assume "x \<in> set (iter_child_nodes n)"
  then have "tree_size x \<le> sum_list (map tree_size (iter_child_nodes n))"
    by (simp add: member_le_sum_list)
  with iter_child_nodes_size [OF True] show ?thesis by simp
next
  case False
  assume "x \<in> set (iter_child_nodes n)"
  with iter_child_nodes_not_ast [OF False] show ?thesis by simp
qed

function subtree_nodes :: "pyobj \<Rightarrow> pyobj list" where
  "subtree_nodes node = node # concat (map subtree_nodes (iter_child_nodes node))"
  by pat_completeness auto
termination
  by (relation "measure tree_size") (auto simp: child_smaller)

declare subtree_nodes.simps [simp del]

section \<open>Complexity classifier (app.py, analyze\_complexity)\<close>

record analysis =
  time_complexity :: string
  space_complexity :: string
  issues :: "string list"
  recommendations :: "string list"

text \<open>
  The counters of the walk. The two dictionaries are association lists in insertion
  order, which is the order \<open>dict.items()\<close> iterates in.
\<close>

record counters =
  loop_stack :: "pyobj list"
  max_loop_depth :: nat
  recursive_calls :: nat
  data_structures :: "(string \<times> nat) list"
  function_calls :: "(string \<times> nat) list"

definition dict_get :: "(string \<times> nat) list \<Rightarrow> string \<Rightarrow> nat \<Rightarrow> nat" where
  "dict_get d k dflt = (case map_of d k of Some v \<Rightarrow> v | None \<Rightarrow> dflt)"

fun dict_set :: "(string \<times> nat) list \<Rightarrow> string \<Rightarrow> nat \<Rightarrow> (string \<times> nat) list" where
  "dict_set [] k v = [(k, v)]"
| "dict_set ((k', v') # d) k v = (if k' = k then (k, v) # d else (k', v') # dict_set d k v)"

definition function_names :: "pyobj \<Rightarrow> string list" where
  "function_names tree =
     concat (map (\<lambda>node. if is_instance node ''FunctionDef''
                          then (case str_attr node ''name'' of Some n \<Rightarrow> [n] | None \<Rightarrow> [])
                          else [])
                 (walk tree))"

definition is_loop :: "pyobj \<Rightarrow> bool" where
  "is_loop node \<longleftrightarrow> is_instance node ''For'' \<or> is_instance node ''While''"

definition is_recursive_call :: "string list \<Rightarrow> pyobj \<Rightarrow> bool" where
  \<comment> \<open>\<open>isinstance(node.func, ast.Name) and node.func.id in function_names\<close>\<close>
  "is_recursive_call fnames node =
     (case getattr node ''func'' of
        Some func \<Rightarrow> is_instance func ''Name'' \<and>
          (case str_attr func ''id'' of Some i \<Rightarrow> i \<in> set fnames | None \<Rightarrow> False)
      | None \<Rightarrow> False)"

definition call_func_name :: "pyobj \<Rightarrow> string" where
  "call_func_name node =
     (case getattr node ''func'' of
        Some func \<Rightarrow>
          if is_instance func ''Name'' then
            (case str_attr func ''id'' of Some i \<Rightarrow> i | None \<Rightarrow> ''unknown'')
          else if is_instance func ''Attribute'' then
            (case str_attr func ''attr'' of Some a \<Rightarrow> a | None \<Rightarrow> ''unknown'')
          else ''unknown''
      | None \<Rightarrow> ''unknown'')"

definition structure_kind :: "pyobj \<Rightarrow> string option" where
  "structure_kind node =
     (if is_instance node ''List'' then Some ''list''
      else if is_instance node ''Dict'' then Some ''dict''
      else if is_instance node ''Set'' then Some ''set''
      else if is_instance node ''ListComp'' then Some ''list''
      else if is_instance node ''DictComp'' then Some ''dict''
      else if is_instance node ''SetComp'' then Some ''set''
      else None)"

definition track_loops_and_calls :: "string list \<Rightarrow> pyobj \<Rightarrow> counters \<Rightarrow> counters" where
  "track_loops_and_calls fnames node c =
     (if is_loop node then
        (let stack = loop_stack c @ [node]
         in c\<lparr>loop_stack := stack, max_loop_depth := max (max_loop_depth c) (length stack)\<rparr>)
      else if is_instance node ''Call'' then
        (let c1 = (if is_recursive_call fnames node
                   then c\<lparr>recursive_calls := recursive_calls c + 1\<rparr> else c);
             func_name = call_func_name node
         in c1\<lparr>function_calls :=
                  dict_set (function_calls c1) func_name (dict_get (function_calls c1) func_name 0 + 1)\<rparr>)
      else c)"

definition count_structure :: "pyobj \<Rightarrow> counters \<Rightarrow> counters" where
  "count_structure node c =
     (case structure_kind node of
        Some k \<Rightarrow> c\<lparr>data_structures :=
                       dict_set (data_structures c) k (dict_get (data_structures c) k 0 + 1)\<rparr>
      | None \<Rightarrow> c)"

definition visit :: "string list \<Rightarrow> pyobj \<Rightarrow> counters \<Rightarrow> counters" where
  "visit fnames node c = count_structure node (track_loops_and_calls fnames node c)"

definition init_counters :: counters where
  "init_counters = \<lparr>loop_stack = [], max_loop_depth = 0, recursive_calls = 0,
                     data_structures = [], function_calls = []\<rparr>"

definition count_tree :: "pyobj \<Rightarrow> counters" where
  "count_tree tree = fold (visit (function_names tree)) (walk tree) init_counters"

definition init_analysis :: analysis where
  "init_analysis = \<lparr>time_complexity = ''O(1)'', space_complexity = ''O(1)'',
                     issues = [], recommendations = []\<rparr>"

definition determine_time :: "counters \<Rightarrow> analysis \<Rightarrow> analysis" where
  "determine_time c a =
     (if recursive_calls c > 0 then
        a\<lparr>time_complexity := ''O(2^n)'',
          issues := issues a @ [''Recursive calls may lead to exponential time complexity''],
          recommendations := recommendations a @ [''Consider using iterative approaches or memoization'']\<rparr>
      else if max_loop_depth c > 1 then
        a\<lparr>time_complexity := ''O(n^'' @ show_nat (max_loop_depth c) @ '')'',
          issues := issues a @ [''Nested loops (depth '' @ show_nat (max_loop_depth c)
                                 @ '') can lead to polynomial time complexity''],
          recommendations := recommendations a @ [''Consider optimizing with more efficient algorithms'']\<rparr>
      else if max_loop_depth c = 1 then a\<lparr>time_complexity := ''O(n)''\<rparr>
      else a\<lparr>time_complexity := ''O(1)''\<rparr>)"

definition check_sort_call :: "string \<times> nat \<Rightarrow> analysis \<Rightarrow> analysis" where
  "check_sort_call item a =
     (case item of (func, n_calls) \<Rightarrow>
        if func \<in> set [''sort'', ''sorted''] then
          a\<lparr>time_complexity := (if time_complexity a = ''O(1)'' then ''O(n log n)''
                                 else time_complexity a @ '' + O(n log n)''),
            issues := issues a @ [''Using '' @ func @ '' adds O(n log n) time complexity'']\<rparr>
        else a)"

definition determine_space :: "counters \<Rightarrow> analysis \<Rightarrow> analysis" where
  "determine_space c a =
     (let total_structures = sum_list (map snd (data_structures c)) in
      if total_structures > 3 then
        a\<lparr>space_complexity := ''O(n)'',
          issues := issues a @ [''Multiple data structures may increase space complexity''],
          recommendations := recommendations a @ [''Consider reusing data structures or streaming data'']\<rparr>
      else if ''list'' \<in> fst ` set (data_structures c) \<or> ''dict'' \<in> fst ` set (data_structures c)
              \<or> ''set'' \<in> fst ` set (data_structures c) then
        a\<lparr>space_complexity := ''O(n)''\<rparr>
      else a\<lparr>space_complexity := ''O(1)''\<rparr>)"

definition analyze_tree :: "pyobj \<Rightarrow> analysis" where
  \<comment> \<open>the body of the \<open>try\<close> block after \<open>ast.parse\<close>\<close>
  "analyze_tree tree =
     (let c = count_tree tree;
          a1 = determine_time c init_analysis;
          a2 = fold check_sort_call (function_calls c) a1
      in determine_space c a2)"

text \<open>
  \<open>ast.parse\<close> is a parameter: it returns the tree, or \<open>Inl\<close> of the text
  \<open>str(e)\<close> of the exception it raised. The \<open>except Exception\<close> clause turns
  that into the degraded report.
\<close>

definition analyze_complexity :: "(string \<Rightarrow> string + pyobj) \<Rightarrow> string \<Rightarrow> analysis" where
  "analyze_complexity parse code =
     (case parse code of
        Inr tree \<Rightarrow> analyze_tree tree
      | Inl e \<Rightarrow> \<lparr>time_complexity = ''Unknown'', space_complexity = ''Unknown'',
                   issues = [''Analysis error: '' @ e],
                   recommendations = [''Check syntax errors'']\<rparr>)"

text \<open>
  The names the calls of a tree target, and the text the sort pass appends to a label
  other than \<open>O(1)\<close>: one term for each of \<open>sort\<close> and \<open>sorted\<close>
  that some call targets.
\<close>

definition called_names :: "pyobj \<Rightarrow> string set" where
  "called_names tree = set (map call_func_name (filter (\<lambda>n. is_instance n ''Call'') (walk tree)))"

definition sort_terms :: "pyobj \<Rightarrow> string" where
  "sort_terms tree =
     concat (map (\<lambda>k. if k \<in> called_names tree then '' + O(n log n)'' else []) [''sort'', ''sorted''])"

section \<open>Tree serializer (tree\_visualizer.py)\<close>

text \<open>\<open>str\<close> and \<open>repr\<close> of a plain value; a string is quoted the way the
  host language quotes it (code points below 256).\<close>

definition hex_digit :: "nat \<Rightarrow> char" where
  "hex_digit d = (if d < 10 then char_of (48 + d) else char_of (87 + d))"

definition repr_char :: "char \<Rightarrow> char \<Rightarrow> string" where
  "repr_char quote c =
     (let n = (of_char c :: nat) in
      if c = quote \<or> c = CHR 0x5C then [CHR 0x5C, c]
      else if c = CHR 0x09 then [CHR 0x5C, CHR ''t'']
      else if c = CHR 0x0A then [CHR 0x5C, CHR ''n'']
      else if c = CHR 0x0D then [CHR 0x5C, CHR ''r'']
      else if n < 32 \<or> n = 127 \<or> (128 \<le> n \<and> n \<le> 160) \<or> n = 173
      then [CHR 0x5C, CHR ''x'', hex_digit (n div 16), hex_digit (n mod 16)]
      else [c])"

definition repr_str :: "string \<Rightarrow> string" where
  "repr_str s =
     (let quote = (if CHR 0x27 \<in> set s \<and> CHR 0x22 \<notin> set s then CHR 0x22 else CHR 0x27)
      in quote # concat (map (repr_char quote) s) @ [quote])"

fun str_of :: "pyraw \<Rightarrow> string" where
  "str_of PyNone = ''None''"
| "str_of (PyBool b) = (if b then ''True'' else ''False'')"
| "str_of (PyInt i) = show_int i"
| "str_of (PyStr s) = s"
| "str_of (PyOpaque r) = r"

fun repr_of :: "pyraw \<Rightarrow> string" where
  "repr_of (PyStr s) = repr_str s"
| "repr_of v = str_of v"

text \<open>
  The dictionary \<open>_parse_ast_node\<close> builds for one node. \<open>n_lineno\<close>,
  \<open>n_name\<close>, \<open>n_func\<close>, \<open>n_target\<close>, \<open>n_value\<close> and \<open>n_field\<close>
  are the keys the dictionary may lack.
\<close>

datatype node_info =
  NodeInfo (n_id: nat) (n_type: string) (n_depth: nat) (n_lineno: "int option")
    (n_name: "string option") (n_func: "string option") (n_target: "string option")
    (n_value: "string option") (n_field: "string option") (n_children: "node_info list")

fun set_field :: "string \<Rightarrow> node_info \<Rightarrow> node_info" where
  "set_field f (NodeInfo i t d l nm fn tg v fld cs) = NodeInfo i t d l nm fn tg v (Some f) cs"

definition node_lineno :: "int option \<Rightarrow> int option" where
  \<comment> \<open>\<open>hasattr(node, 'lineno') and node.lineno\<close>\<close>
  "node_lineno l = (case l of Some n \<Rightarrow> if n \<noteq> 0 then Some n else None | None \<Rightarrow> None)"

definition first_target_name :: "pyobj \<Rightarrow> string option" where
  \<comment> \<open>\<open>len(node.targets) > 0 and isinstance(node.targets[0], ast.Name)\<close>\<close>
  "first_target_name node =
     (case getattr node ''targets'' of
        Some (PyList (t # ts)) \<Rightarrow> if is_instance t ''Name'' then str_attr t ''id'' else None
      | _ \<Rightarrow> None)"

definition call_name :: "pyobj \<Rightarrow> string option" where
  \<comment> \<open>\<open>isinstance(node.func, ast.Name)\<close>\<close>
  "call_name node =
     (case getattr node ''func'' of
        Some f \<Rightarrow> if is_instance f ''Name'' then str_attr f ''id'' else None
      | None \<Rightarrow> None)"

definition constant_repr :: "pyobj \<Rightarrow> string option" where
  "constant_repr node = (case getattr node ''value'' of Some (Value v) \<Rightarrow> Some (repr_of v) | _ \<Rightarrow> None)"

definition describe_node :: "nat \<Rightarrow> nat \<Rightarrow> pyobj \<Rightarrow> string \<Rightarrow> int option \<Rightarrow> node_info list \<Rightarrow> node_info" where
  \<comment> \<open>the \<open>node_info\<close> dictionary with the class-specific key of the \<open>if\<close> chain\<close>
  "describe_node node_id depth node cls l children =
     (let base = NodeInfo node_id cls depth (node_lineno l) in
      if cls = ''Name'' then base (str_attr node ''id'') None None None None children
      else if cls = ''FunctionDef'' then base (str_attr node ''name'') None None None None children
      else if cls = ''Call'' then base None (call_name node) None None None children
      else if cls = ''Assign'' then base None None (first_target_name node) None None children
      else if cls = ''Constant'' then base None None None (constant_repr node) None children
      else base None None None None None children)"

text \<open>
  \<open>_parse_ast_node\<close>, with the counter \<open>self.node_id\<close> passed in and returned.
  \<open>parse_fields\<close> is its loop over \<open>ast.iter_fields\<close> and \<open>parse_items\<close>
  the inner loop over a list-valued field; both get the depth of the children. A value
  that is not a node becomes a \<open>Literal\<close> leaf; the callers only ever pass nodes.
  For a list passed in place of a node the leaf is given without its \<open>value\<close>,
  which in the source is the text of the list and holds the addresses of its members. The
  recursion follows the tree to any depth, where the host stops at its recursion limit.
\<close>

fun parse_ast_node :: "pyobj \<Rightarrow> nat \<Rightarrow> nat \<Rightarrow> node_info \<times> nat"
  and parse_fields :: "(string \<times> pyobj) list \<Rightarrow> nat \<Rightarrow> nat \<Rightarrow> node_info list \<times> nat"
  and parse_items :: "string \<Rightarrow> pyobj list \<Rightarrow> nat \<Rightarrow> nat \<Rightarrow> node_info list \<times> nat" where
  "parse_ast_node (Node cls l fs) depth node_id =
     (case parse_fields fs (depth + 1) (node_id + 1) of
        (children, node_id') \<Rightarrow>
          (describe_node (node_id + 1) depth (Node cls l fs) cls l children, node_id'))"
| "parse_ast_node (Value v) depth node_id =
     (NodeInfo node_id ''Literal'' depth None None None None (Some (str_of v)) None [], node_id)"
| "parse_ast_node (PyList items) depth node_id =
     (NodeInfo node_id ''Literal'' depth None None None None None None [], node_id)"
| "parse_fields [] depth node_id = ([], node_id)"
| "parse_fields ((field, Node cls l fs) # rest) depth node_id =
     (case parse_ast_node (Node cls l fs) depth node_id of
        (child_node, node_id1) \<Rightarrow>
          (case parse_fields rest depth node_id1 of
             (children, node_id2) \<Rightarrow> (set_field field child_node # children, node_id2)))"
| "parse_fields ((field, PyList items) # rest) depth node_id =
     (case parse_items field items depth node_id of
        (cs, node_id1) \<Rightarrow>
          (case parse_fields rest depth node_id1 of
             (children, node_id2) \<Rightarrow> (cs @ children, node_id2)))"
| "parse_fields ((field, Value v) # rest) depth node_id = parse_fields rest depth node_id"
| "parse_items field [] depth node_id = ([], node_id)"
| "parse_items field (Node cls l fs # items) depth node_id =
     (case parse_ast_node (Node cls l fs) depth node_id of
        (child_node, node_id1) \<Rightarrow>
          (case parse_items field items depth node_id1 of
             (children, node_id2) \<Rightarrow> (set_field field child_node # children, node_id2)))"
| "parse_items field (PyList xs # items) depth node_id = parse_items field items depth node_id"
| "parse_items field (Value v # items) depth node_id = parse_items field items depth node_id"

definition generate_ast_tree ::
  "(string \<Rightarrow> string + pyobj) \<Rightarrow> string \<Rightarrow> nat \<Rightarrow> (string list + node_info) \<times> nat" where
  "generate_ast_tree parse code node_id =
     (case parse code of
        Inr tree \<Rightarrow> (case parse_ast_node tree 0 node_id of (ast_tree, node_id') \<Rightarrow> (Inr ast_tree, node_id'))
      | Inl e \<Rightarrow> (Inl [''AST parsing error: '' @ e], node_id))"

fun structural_nodes :: "node_info \<Rightarrow> nat" where
  \<comment> \<open>how many dictionaries of the result stand for a syntax node\<close>
  "structural_nodes (NodeInfo i t d l nm fn tg v fld cs) =
     (if t = ''Literal'' then 0 else 1) + sum_list (map structural_nodes cs)"

section \<open>Trace hooks (visualizer.py, memory\_visualizer.py)\<close>

text \<open>
  A run-time value as the hooks see it: the name of its class, its identity
  \<open>id(value)\<close>, whether it passes the test
  \<open>isinstance(value, (int, float, str, bool)) or value is None\<close>, its \<open>repr\<close>, and
  \<open>sys.getsizeof(value)\<close> (\<open>None\<close> when that raises).
\<close>

record pyvalue =
  v_class :: string
  v_id :: nat
  v_scalar :: bool
  v_repr :: string
  v_size :: "nat option"

record code_visualizer =
  steps :: "string list"
  line_numbers :: "nat list"
  variable_states :: "(string \<times> string) list"
  current_line :: nat

definition trace_line :: "nat \<Rightarrow> code_visualizer \<Rightarrow> code_visualizer" where
  "trace_line line_no self =
     self\<lparr>current_line := line_no,
          steps := steps self @ [''Executing line '' @ show_nat line_no],
          line_numbers := line_numbers self @ [line_no]\<rparr>"

definition trace_var :: "string \<Rightarrow> pyvalue \<Rightarrow> code_visualizer \<Rightarrow> code_visualizer" where
  "trace_var var_name v self =
     (let formatted_value =
            (if v_scalar v then v_repr v
             else ''<'' @ v_class v @ '' object at '' @ show_nat (v_id v) @ ''>'')
      in self\<lparr>steps := steps self @ [''Variable '' @ [CHR 0x27] @ var_name @ [CHR 0x27] @ '' = '' @ formatted_value],
              variable_states := variable_states self @ [(var_name, formatted_value)]\<rparr>)"

record var_info =
  address :: nat
  type_name :: string
  size_estimate :: "nat option"
  shown_value :: string

record snapshot =
  snap_line :: nat
  snap_variables :: "(string \<times> var_info) list"

record memory_visualizer =
  memory_snapshots :: "snapshot list"
  current_snapshot :: "(string \<times> var_info) list"

fun store_var :: "(string \<times> var_info) list \<Rightarrow> string \<Rightarrow> var_info \<Rightarrow> (string \<times> var_info) list" where
  \<comment> \<open>\<open>d[k] = v\<close> on a dictionary in insertion order\<close>
  "store_var [] k v = [(k, v)]"
| "store_var ((k', v') # d) k v = (if k' = k then (k, v) # d else (k', v') # store_var d k v)"

definition record_memory :: "string \<Rightarrow> pyvalue \<Rightarrow> memory_visualizer \<Rightarrow> memory_visualizer" where
  "record_memory var_name v self =
     (let mem_address = v_id v;
          var_type = v_class v;
          var_size = v_size v;
          formatted_value = (if v_scalar v then v_repr v else ''<'' @ var_type @ '' object>'')
      in self\<lparr>current_snapshot :=
                 store_var (current_snapshot self) var_name
                   \<lparr>address = mem_address, type_name = var_type,
                    size_estimate = var_size, shown_value = formatted_value\<rparr>\<rparr>)"

definition take_snapshot :: "nat \<Rightarrow> memory_visualizer \<Rightarrow> memory_visualizer" where
  "take_snapshot line_no self =
     self\<lparr>memory_snapshots :=
            memory_snapshots self @ [\<lparr>snap_line = line_no, snap_variables = current_snapshot self\<rparr>]\<rparr>"

text \<open>The two \<open>__init__\<close> methods.\<close>

definition new_code_visualizer :: code_visualizer where
  "new_code_visualizer = \<lparr>steps = [], line_numbers = [], variable_states = [], current_line = 0\<rparr>"

definition new_memory_visualizer :: memory_visualizer where
  "new_memory_visualizer = \<lparr>memory_snapshots = [], current_snapshot = []\<rparr>"

section \<open>Running the instrumented text (visualizer.py, memory\_visualizer.py)\<close>

text \<open>
  \<open>visualize_execution\<close> and \<open>visualize_memory\<close> hand the instrumented text to
  the host interpreter's \<open>exec\<close>, which is not part of the repository. What follows is
  CPython's \<open>exec(text, globals)\<close> (versions 3.6 to 3.13) as far as the model goes:
  \<^item> the whole text is compiled first, and \<open>exec\<close> raises if that fails;
  \<^item> if the globals have no key \<open>__builtins__\<close>, \<open>exec\<close> stores the builtins
    under that key; the builtins the run uses are those the globals name at that moment,
    and they stay the same for the whole run;
  \<^item> a program with an annotated statement outside function and class bodies begins
    by binding \<open>__annotations__\<close> to a new dictionary, unless the name is bound;
  \<^item> then the statements run from the top. A name is looked up in the globals, then
    in the builtins; a name that neither has raises \<open>NameError\<close>.

  The model follows three forms of statement, each written on one physical line that
  starts in column 0:
  \<^item> a call of a name, or of an attribute of a name, with one integer literal
    (\<open>f(3)\<close>, \<open>obj.method(3)\<close>);
  \<^item> a call of a name with a string literal free of escapes and a name
    (\<open>f("x", x)\<close>): the callee is looked up, then the argument name;
  \<^item> the assignment of an integer literal to a name (\<open>x = 1\<close>).
  These are the statements the instrumenters inject, and the simplest assignment. From
  the first line of any other form on, the rest of the run is left to a parameter.

  A line of the text (the text up to a line feed) holds no statement when each of its
  physical lines is empty or a comment after spaces, tabs and form feeds; a carriage
  return ends a physical line as a line feed does. Such a line is skipped.

  An environment binds names to run-time values; a value carries the role it can play
  when called: the hook that records a line, the hook that records a variable, or the
  tracer object itself, whose line-recording method the injected text calls. Calling
  anything else is left to the parameter as well.
\<close>

datatype role = Plain | LineHook | VarHook | TracerObject

type_synonym binding = "pyvalue \<times> role"
type_synonym env = "string \<Rightarrow> binding option"

text \<open>
  How a call into the interpreter can fail: with an exception of class \<open>Exception\<close>,
  which the \<open>except Exception\<close> clauses of the two tracers catch and whose text they
  report, or in a way they do not catch (an exception outside that class, such as
  \<open>SystemExit\<close>, or a run that does not end).
\<close>

datatype failure = Raises string | Escapes

text \<open>
  What the builtins give for a name. They are whatever object the globals hold under
  \<open>__builtins__\<close>, so a lookup in them can also fail other than by the name being
  absent.
\<close>

datatype found = Bound binding | Unbound | Fails failure

datatype stmt =
    Call1 string nat
  | Call2 string string string
  | AssignInt string nat
  | Other

definition reserved_words :: "string list" where
  "reserved_words = [''False'', ''None'', ''True'', ''and'', ''as'', ''assert'', ''async'', ''await'',
     ''break'', ''class'', ''continue'', ''def'', ''del'', ''elif'', ''else'', ''except'',
     ''finally'', ''for'', ''from'', ''global'', ''if'', ''import'', ''in'', ''is'', ''lambda'',
     ''nonlocal'', ''not'', ''or'', ''pass'', ''raise'', ''return'', ''try'', ''while'', ''with'',
     ''yield'', ''__debug__'']"

definition is_digit :: "char \<Rightarrow> bool" where
  "is_digit c \<longleftrightarrow> c \<in> set ''0123456789''"

definition is_ident_char :: "char \<Rightarrow> bool" where
  "is_ident_char c \<longleftrightarrow>
     c \<in> set ''abcdefghijklmnopqrstuvwxyzABCDEFGHIJKLMNOPQRSTUVWXYZ_'' \<or> is_digit c"

definition is_identifier :: "string \<Rightarrow> bool" where
  \<comment> \<open>a name written in ASCII that is not reserved\<close>
  "is_identifier s \<longleftrightarrow>
     s \<noteq> [] \<and> \<not> is_digit (hd s) \<and> list_all is_ident_char s \<and> s \<notin> set reserved_words"

definition is_callee :: "string \<Rightarrow> bool" where
  \<comment> \<open>\<open>name\<close> or \<open>name.attribute\<close>\<close>
  "is_callee s =
     (case split_on (CHR ''.'') s of
        [a] \<Rightarrow> is_identifier a
      | [a, b] \<Rightarrow> is_identifier a \<and> is_identifier b
      | _ \<Rightarrow> False)"

definition is_int_literal :: "string \<Rightarrow> bool" where
  \<comment> \<open>decimal digits without a leading zero\<close>
  "is_int_literal s \<longleftrightarrow> s \<noteq> [] \<and> list_all is_digit s \<and> (s = ''0'' \<or> hd s \<noteq> CHR ''0'')"

definition digit_value :: "char \<Rightarrow> nat" where
  "digit_value c = of_char c - 48"

definition read_nat :: "string \<Rightarrow> nat" where
  "read_nat s = foldl (\<lambda>n c. 10 * n + digit_value c) 0 s"

definition is_plain_text :: "string \<Rightarrow> bool" where
  \<comment> \<open>the body of a string literal that needs no escape processing\<close>
  "is_plain_text s \<longleftrightarrow> list_all (\<lambda>c. c \<noteq> CHR 0x22 \<and> c \<noteq> CHR 0x5C \<and> 32 \<le> (of_char c :: nat) \<and> (of_char c :: nat) < 127) s"

definition parse_call :: "string \<Rightarrow> stmt" where
  "parse_call line =
     (let callee = takeWhile (\<lambda>c. c \<noteq> CHR ''('') line;
          rest = dropWhile (\<lambda>c. c \<noteq> CHR ''('') line
      in if \<not> is_callee callee \<or> length rest < 2 \<or> last rest \<noteq> CHR '')'' then Other
         else
           (let args = butlast (tl rest) in
            if is_int_literal args then Call1 callee (read_nat args)
            else if args \<noteq> [] \<and> hd args = CHR 0x22 then
              (let text = takeWhile (\<lambda>c. c \<noteq> CHR 0x22) (tl args);
                   after = dropWhile (\<lambda>c. c \<noteq> CHR 0x22) (tl args)
               in if is_plain_text text \<and> take 3 after = [CHR 0x22, CHR '','', CHR '' '']
                     \<and> is_identifier (drop 3 after)
                  then Call2 callee text (drop 3 after) else Other)
            else Other))"

definition parse_assign :: "string \<Rightarrow> stmt" where
  "parse_assign line =
     (let left = takeWhile (\<lambda>c. c \<noteq> CHR ''='') line;
          right = drop 1 (dropWhile (\<lambda>c. c \<noteq> CHR ''='') line);
          name = takeWhile (\<lambda>c. c \<noteq> CHR '' '') left;
          lit = dropWhile (\<lambda>c. c = CHR '' '') right
      in if CHR ''='' \<in> set line \<and> is_identifier name
            \<and> list_all (\<lambda>c. c = CHR '' '') (dropWhile (\<lambda>c. c \<noteq> CHR '' '') left)
            \<and> is_int_literal lit
         then AssignInt name (read_nat lit) else Other)"

definition parse_stmt :: "string \<Rightarrow> stmt" where
  "parse_stmt line = (case parse_call line of Other \<Rightarrow> parse_assign line | s \<Rightarrow> s)"

definition is_py_space :: "char \<Rightarrow> bool" where
  \<comment> \<open>what the tokenizer passes over at the start of a physical line: space, tab, form feed\<close>
  "is_py_space c \<longleftrightarrow> c = CHR '' '' \<or> c = CHR 0x09 \<or> c = CHR 0x0C"

definition blank_physical_line :: "string \<Rightarrow> bool" where
  "blank_physical_line l =
     (let body = dropWhile is_py_space l in body = [] \<or> hd body = CHR ''#'')"

definition py_blank :: "string \<Rightarrow> bool" where
  \<comment> \<open>a line of the text that holds no statement\<close>
  "py_blank line = list_all blank_physical_line (split_on (CHR 0x0D) line)"

text \<open>
  What the model takes from the interpreter as given: the text of the error
  \<open>compile\<close> raises for a program, if any (every error of the compiler is of class
  \<open>Exception\<close>); the object \<open>exec\<close> stores under \<open>__builtins__\<close>; what the
  builtins named by given globals hold; whether a program has an annotated statement
  outside function and class bodies, and the dictionary it then starts with; the object
  an integer literal evaluates to; and the run of the program from a line on that the
  model does not follow (given the builtins and the globals: its final tracer state and
  how it failed, if it did).
\<close>

record 's interpreter =
  compile_error :: "string \<Rightarrow> string option"
  builtins_module :: pyvalue
  builtins_of :: "env \<Rightarrow> string \<Rightarrow> found"
  annotated :: "string \<Rightarrow> bool"
  annotations_object :: pyvalue
  int_object :: "nat \<Rightarrow> pyvalue"
  run_rest :: "string list \<Rightarrow> (string \<Rightarrow> found) \<Rightarrow> env \<Rightarrow> 's \<Rightarrow> 's \<times> failure option"

record 's hooks =
  on_line :: "nat \<Rightarrow> 's \<Rightarrow> 's"
  on_var :: "string \<Rightarrow> pyvalue \<Rightarrow> 's \<Rightarrow> 's"
  line_method :: string

definition lookup :: "(string \<Rightarrow> found) \<Rightarrow> env \<Rightarrow> string \<Rightarrow> found" where
  \<comment> \<open>a name is looked up in the globals, then in the builtins\<close>
  "lookup b e name = (case e name of Some x \<Rightarrow> Bound x | None \<Rightarrow> b name)"

definition name_error :: "string \<Rightarrow> string" where
  "name_error name = ''name '' @ [CHR 0x27] @ name @ [CHR 0x27] @ '' is not defined''"

fun run_lines ::
  "'s interpreter \<Rightarrow> 's hooks \<Rightarrow> (string \<Rightarrow> found) \<Rightarrow> string list \<Rightarrow> env \<Rightarrow> 's \<Rightarrow>
   's \<times> failure option" where
  "run_lines I H b [] e st = (st, None)"
| "run_lines I H b (line # rest) e st =
     (if py_blank line then run_lines I H b rest e st
      else
        (case parse_stmt line of
           Call1 callee n \<Rightarrow>
             (case split_on (CHR ''.'') callee of
                [f] \<Rightarrow>
                  (case lookup b e f of
                     Unbound \<Rightarrow> (st, Some (Raises (name_error f)))
                   | Fails x \<Rightarrow> (st, Some x)
                   | Bound (v, LineHook) \<Rightarrow> run_lines I H b rest e (on_line H n st)
                   | Bound _ \<Rightarrow> run_rest I (line # rest) b e st)
              | [obj, attr] \<Rightarrow>
                  (case lookup b e obj of
                     Unbound \<Rightarrow> (st, Some (Raises (name_error obj)))
                   | Fails x \<Rightarrow> (st, Some x)
                   | Bound (v, TracerObject) \<Rightarrow>
                       if attr = line_method H then run_lines I H b rest e (on_line H n st)
                       else run_rest I (line # rest) b e st
                   | Bound _ \<Rightarrow> run_rest I (line # rest) b e st)
              | _ \<Rightarrow> run_rest I (line # rest) b e st)
         | Call2 callee text name \<Rightarrow>
             (case split_on (CHR ''.'') callee of
                [f] \<Rightarrow>
                  (case lookup b e f of
                     Unbound \<Rightarrow> (st, Some (Raises (name_error f)))
                   | Fails x \<Rightarrow> (st, Some x)
                   | Bound (fv, r) \<Rightarrow>
                       (case lookup b e name of
                          Unbound \<Rightarrow> (st, Some (Raises (name_error name)))
                        | Fails x \<Rightarrow> (st, Some x)
                        | Bound (v, r') \<Rightarrow>
                            if r = VarHook then run_lines I H b rest e (on_var H text v st)
                            else run_rest I (line # rest) b e st))
              | _ \<Rightarrow> run_rest I (line # rest) b e st)
         | AssignInt name n \<Rightarrow> run_lines I H b rest (e(name \<mapsto> (int_object I n, Plain))) st
         | Other \<Rightarrow> run_rest I (line # rest) b e st))"

definition exec_globals :: "'s interpreter \<Rightarrow> env \<Rightarrow> env" where
  \<comment> \<open>the globals once \<open>exec\<close> has made sure of the key \<open>__builtins__\<close>\<close>
  "exec_globals I e =
     (case e ''__builtins__'' of
        None \<Rightarrow> e(''__builtins__'' \<mapsto> (builtins_module I, Plain))
      | Some x \<Rightarrow> e)"

definition setup_annotations :: "'s interpreter \<Rightarrow> string \<Rightarrow> env \<Rightarrow> env" where
  \<comment> \<open>the globals once the program has made sure of \<open>__annotations__\<close>, if it has to\<close>
  "setup_annotations I text g =
     (if annotated I text \<and> g ''__annotations__'' = None
      then g(''__annotations__'' \<mapsto> (annotations_object I, Plain)) else g)"

definition exec :: "'s interpreter \<Rightarrow> 's hooks \<Rightarrow> string \<Rightarrow> env \<Rightarrow> 's \<Rightarrow> 's \<times> failure option" where
  "exec I H text e st =
     (case compile_error I text of
        Some err \<Rightarrow> (st, Some (Raises err))
      | None \<Rightarrow>
          (let g = exec_globals I e
           in run_lines I H (builtins_of I g) (split_on (CHR 0x0A) text) (setup_annotations I text g) st))"

definition resolve_at_start :: "'s interpreter \<Rightarrow> string \<Rightarrow> env \<Rightarrow> string \<Rightarrow> found" where
  \<comment> \<open>what a name gives when the first statement of \<open>text\<close> runs under \<open>exec\<close> with globals \<open>e\<close>\<close>
  "resolve_at_start I text e name =
     (let g = exec_globals I e in lookup (builtins_of I g) (setup_annotations I text g) name)"

text \<open>
  \<open>format_steps\<close>. The literal of the indented lines holds three characters beyond
  the 8-bit range (U+00E2, U+2020, U+2019); \<open>arrow\<close> keeps them as their UTF-8 bytes.
\<close>

definition arrow :: string where
  "arrow = [CHR 0xC3, CHR 0xA2, CHR 0xE2, CHR 0x80, CHR 0xA0, CHR 0xE2, CHR 0x80, CHR 0x99]"

definition format_step :: "code_visualizer \<Rightarrow> nat \<times> string \<Rightarrow> string list" where
  "format_step self item =
     (case item of (i, step) \<Rightarrow>
        (''Step '' @ show_nat (i + 1) @ '': '' @ step) #
        (if sublist ''Executing line'' step \<and> int i < int (length (line_numbers self)) - 1
         then map (\<lambda>(var_name, v). ''  '' @ arrow @ '' '' @ var_name @ '' = '' @ v) (variable_states self)
         else []))"

definition format_steps :: "code_visualizer \<Rightarrow> string list" where
  "format_steps self = concat (map (format_step self) (enumerate 0 (steps self)))"

record tracer_values =
  self_value :: pyvalue
  line_hook_value :: pyvalue
  var_hook_value :: pyvalue

definition execution_hooks :: "code_visualizer hooks" where
  "execution_hooks = \<lparr>on_line = trace_line, on_var = trace_var, line_method = ''trace_line''\<rparr>"

definition install_tracer :: "tracer_values \<Rightarrow> env \<Rightarrow> env" where
  "install_tracer objs execution_env =
     execution_env(''__visualizer__'' \<mapsto> (self_value objs, TracerObject),
                   ''__trace_line__'' \<mapsto> (line_hook_value objs, LineHook),
                   ''__trace_var__'' \<mapsto> (var_hook_value objs, VarHook))"

text \<open>
  \<open>visualize_execution\<close>. The result is the list the method returns, or \<open>None\<close>
  when the run fails in a way its \<open>except Exception\<close> clause does not catch, so that
  the method returns nothing. \<open>parse\<close> is \<open>ast.parse\<close>, as for the classifier.
\<close>

definition visualize_execution ::
  "(string \<Rightarrow> string + pyobj) \<Rightarrow> code_visualizer interpreter \<Rightarrow> tracer_values \<Rightarrow>
   string \<Rightarrow> env \<Rightarrow> code_visualizer \<Rightarrow> string list option" where
  "visualize_execution parse I objs code execution_env self =
     (case parse code of
        Inl err \<Rightarrow> Some [''Visualization error: '' @ err]
      | Inr tree \<Rightarrow>
          (case exec I execution_hooks (instrument_code code) (install_tracer objs execution_env) self of
             (self', None) \<Rightarrow> Some (format_steps self')
           | (self', Some (Raises err)) \<Rightarrow> Some [''Visualization error: '' @ err]
           | (self', Some Escapes) \<Rightarrow> None))"

text \<open>\<open>format_memory_snapshots\<close> and \<open>visualize_memory\<close>.\<close>

function show_hex :: "nat \<Rightarrow> string" where
  "show_hex n = (if n < 16 then [hex_digit n] else show_hex (n div 16) @ [hex_digit (n mod 16)])"
  by pat_completeness auto
termination
  by (relation "measure id") auto

declare show_hex.simps [simp del]

definition format_variable :: "string \<times> var_info \<Rightarrow> string" where
  "format_variable item =
     (case item of (var_name, info) \<Rightarrow>
        ''  '' @ var_name @ '': '' @ shown_value info @ '' (type: '' @ type_name info
        @ '', size: '' @ (case size_estimate info of Some n \<Rightarrow> show_nat n | None \<Rightarrow> ''unknown'')
        @ '', address: 0x'' @ show_hex (address info) @ '')'')"

definition format_snapshot :: "snapshot \<Rightarrow> string list" where
  "format_snapshot snap =
     (''Snapshot at line '' @ show_nat (snap_line snap) @ '':'') #
     (if snap_variables snap = [] then [''  No variables in memory'']
      else map format_variable (snap_variables snap) @ [[]])"

definition format_memory_snapshots :: "memory_visualizer \<Rightarrow> string list" where
  "format_memory_snapshots self = concat (map format_snapshot (memory_snapshots self))"

definition memory_hooks :: "memory_visualizer hooks" where
  "memory_hooks = \<lparr>on_line = take_snapshot, on_var = record_memory, line_method = ''take_snapshot''\<rparr>"

definition install_tracker :: "tracer_values \<Rightarrow> env \<Rightarrow> env" where
  "install_tracker objs execution_env =
     execution_env(''__memory_tracker__'' \<mapsto> (self_value objs, TracerObject),
                   ''__record_memory__'' \<mapsto> (var_hook_value objs, VarHook))"

definition visualize_memory ::
  "memory_visualizer interpreter \<Rightarrow> tracer_values \<Rightarrow> string \<Rightarrow> env \<Rightarrow> memory_visualizer \<Rightarrow>
   string list option" where
  "visualize_memory I objs code execution_env self =
     (case exec I memory_hooks (memory_instrument_code code) (install_tracker objs execution_env) self of
        (self', None) \<Rightarrow> Some (format_memory_snapshots self')
      | (self', Some (Raises err)) \<Rightarrow> Some [''Memory visualization error: '' @ err]
      | (self', Some Escapes) \<Rightarrow> None)"

section \<open>Trees of the sample sources\<close>

text \<open>
  Builders for the node classes the sample trees use, each with the field list of its
  class in declaration order (\<open>_fields\<close>, as in CPython 3.8 to 3.11; later
  versions add an empty \<open>type_params\<close> list to \<open>FunctionDef\<close>, which no
  result below depends on), and the trees \<open>ast.parse\<close> returns for the sample
  sources.
\<close>

definition mk_Module :: "pyobj list \<Rightarrow> pyobj" where
  "mk_Module body = Node ''Module'' None [(''body'', PyList body), (''type_ignores'', PyList [])]"

definition mk_Expr :: "int \<Rightarrow> pyobj \<Rightarrow> pyobj" where
  "mk_Expr l v = Node ''Expr'' (Some l) [(''value'', v)]"

definition mk_Constant :: "int \<Rightarrow> pyraw \<Rightarrow> pyobj" where
  "mk_Constant l v = Node ''Constant'' (Some l) [(''value'', Value v), (''kind'', Value PyNone)]"

definition mk_Name :: "int \<Rightarrow> string \<Rightarrow> string \<Rightarrow> pyobj" where
  "mk_Name l i ctx = Node ''Name'' (Some l) [(''id'', Value (PyStr i)), (''ctx'', Node ctx None [])]"

definition mk_Attribute :: "int \<Rightarrow> pyobj \<Rightarrow> string \<Rightarrow> pyobj" where
  "mk_Attribute l v a =
     Node ''Attribute'' (Some l) [(''value'', v), (''attr'', Value (PyStr a)), (''ctx'', Node ''Load'' None [])]"

definition mk_Call :: "int \<Rightarrow> pyobj \<Rightarrow> pyobj list \<Rightarrow> pyobj" where
  "mk_Call l f args =
     Node ''Call'' (Some l) [(''func'', f), (''args'', PyList args), (''keywords'', PyList [])]"

definition mk_List :: "int \<Rightarrow> pyobj list \<Rightarrow> pyobj" where
  "mk_List l elts = Node ''List'' (Some l) [(''elts'', PyList elts), (''ctx'', Node ''Load'' None [])]"

definition mk_Assign :: "int \<Rightarrow> pyobj list \<Rightarrow> pyobj \<Rightarrow> pyobj" where
  "mk_Assign l targets v =
     Node ''Assign'' (Some l) [(''targets'', PyList targets), (''value'', v), (''type_comment'', Value PyNone)]"

definition mk_Pass :: "int \<Rightarrow> pyobj" where
  "mk_Pass l = Node ''Pass'' (Some l) []"

definition mk_For :: "int \<Rightarrow> pyobj \<Rightarrow> pyobj \<Rightarrow> pyobj list \<Rightarrow> pyobj" where
  "mk_For l target iter body =
     Node ''For'' (Some l) [(''target'', target), (''iter'', iter), (''body'', PyList body),
                            (''orelse'', PyList []), (''type_comment'', Value PyNone)]"

definition mk_While :: "int \<Rightarrow> pyobj \<Rightarrow> pyobj list \<Rightarrow> pyobj" where
  "mk_While l test body =
     Node ''While'' (Some l) [(''test'', test), (''body'', PyList body), (''orelse'', PyList [])]"

definition mk_arg :: "int \<Rightarrow> string \<Rightarrow> pyobj" where
  "mk_arg l a =
     Node ''arg'' (Some l) [(''arg'', Value (PyStr a)), (''annotation'', Value PyNone),
                            (''type_comment'', Value PyNone)]"

definition mk_arguments :: "pyobj list \<Rightarrow> pyobj" where
  "mk_arguments args =
     Node ''arguments'' None [(''posonlyargs'', PyList []), (''args'', PyList args),
                              (''vararg'', Value PyNone), (''kwonlyargs'', PyList []),
                              (''kw_defaults'', PyList []), (''kwarg'', Value PyNone),
                              (''defaults'', PyList [])]"

definition mk_FunctionDef :: "int \<Rightarrow> string \<Rightarrow> pyobj list \<Rightarrow> pyobj list \<Rightarrow> pyobj" where
  "mk_FunctionDef l name args body =
     Node ''FunctionDef'' (Some l) [(''name'', Value (PyStr name)), (''args'', mk_arguments args),
                                    (''body'', PyList body), (''decorator_list'', PyList []),
                                    (''returns'', Value PyNone), (''type_comment'', Value PyNone)]"

lemmas mk_defs =
  mk_Module_def mk_Expr_def mk_Constant_def mk_Name_def mk_Attribute_def mk_Call_def mk_List_def
  mk_Assign_def mk_Pass_def mk_For_def mk_While_def mk_arg_def mk_arguments_def mk_FunctionDef_def

definition tree_const :: pyobj where
  \<comment> \<open>the source \<^verbatim>\<open>42\<close>\<close>
  "tree_const = mk_Module [mk_Expr 1 (mk_Constant 1 (PyInt 42))]"

definition tree_list_sort :: pyobj where
  \<comment> \<open>the two lines \<^verbatim>\<open>x = [1,2,3]\<close> and \<^verbatim>\<open>x.sort()\<close>\<close>
  "tree_list_sort =
     mk_Module
       [mk_Assign 1 [mk_Name 1 ''x'' ''Store'']
          (mk_List 1 [mk_Constant 1 (PyInt 1), mk_Constant 1 (PyInt 2), mk_Constant 1 (PyInt 3)]),
        mk_Expr 2 (mk_Call 2 (mk_Attribute 2 (mk_Name 2 ''x'' ''Load'') ''sort'') [])]"

definition tree_for_print :: pyobj where
  \<comment> \<open>the two lines \<^verbatim>\<open>for i in range(3):\<close> and \<^verbatim>\<open>    print(i)\<close>\<close>
  "tree_for_print =
     mk_Module
       [mk_For 1 (mk_Name 1 ''i'' ''Store'')
          (mk_Call 1 (mk_Name 1 ''range'' ''Load'') [mk_Constant 1 (PyInt 3)])
          [mk_Expr 2 (mk_Call 2 (mk_Name 2 ''print'' ''Load'') [mk_Name 2 ''i'' ''Load''])]]"

definition tree_rec_sorted :: pyobj where
  \<comment> \<open>the two lines \<^verbatim>\<open>def f(x):\<close> and \<^verbatim>\<open>    f(sorted(x))\<close>\<close>
  "tree_rec_sorted =
     mk_Module
       [mk_FunctionDef 1 ''f'' [mk_arg 1 ''x'']
          [mk_Expr 2 (mk_Call 2 (mk_Name 2 ''f'' ''Load'')
             [mk_Call 2 (mk_Name 2 ''sorted'' ''Load'') [mk_Name 2 ''x'' ''Load'']])]]"

definition tree_loops_sorted :: pyobj where
  \<comment> \<open>the four lines \<^verbatim>\<open>for i in a:\<close>, \<^verbatim>\<open>    pass\<close>,
      \<^verbatim>\<open>for j in sorted(a):\<close>, \<^verbatim>\<open>    pass\<close>\<close>
  "tree_loops_sorted =
     mk_Module
       [mk_For 1 (mk_Name 1 ''i'' ''Store'') (mk_Name 1 ''a'' ''Load'') [mk_Pass 2],
        mk_For 3 (mk_Name 3 ''j'' ''Store'')
          (mk_Call 3 (mk_Name 3 ''sorted'' ''Load'') [mk_Name 3 ''a'' ''Load'']) [mk_Pass 4]]"

definition tree_call_outside :: pyobj where
  \<comment> \<open>the five lines \<^verbatim>\<open>def f():\<close>, \<^verbatim>\<open>    pass\<close>, \<^verbatim>\<open>for i in a:\<close>,
      \<^verbatim>\<open>    for j in a:\<close>, \<^verbatim>\<open>        f()\<close>\<close>
  "tree_call_outside =
     mk_Module
       [mk_FunctionDef 1 ''f'' [] [mk_Pass 2],
        mk_For 3 (mk_Name 3 ''i'' ''Store'') (mk_Name 3 ''a'' ''Load'')
          [mk_For 4 (mk_Name 4 ''j'' ''Store'') (mk_Name 4 ''a'' ''Load'')
             [mk_Expr 5 (mk_Call 5 (mk_Name 5 ''f'' ''Load'') [])]]]"

definition tree_two_loops :: pyobj where
  \<comment> \<open>the four lines \<^verbatim>\<open>for i in a:\<close>, \<^verbatim>\<open>    pass\<close>, \<^verbatim>\<open>while b:\<close>,
      \<^verbatim>\<open>    pass\<close>\<close>
  "tree_two_loops =
     mk_Module
       [mk_For 1 (mk_Name 1 ''i'' ''Store'') (mk_Name 1 ''a'' ''Load'') [mk_Pass 2],
        mk_While 3 (mk_Name 3 ''b'' ''Load'') [mk_Pass 4]]"

text \<open>A run-time value that is not a scalar: a two-element list.\<close>

definition sample_list_value :: pyvalue where
  "sample_list_value = \<lparr>v_class = ''list'', v_id = 140234, v_scalar = False, v_repr = ''[1, 2]'', v_size = Some 72\<rparr>"

text \<open>
  An interpreter for the sample texts: each of them compiles and none has an annotated
  statement; the builtins hold \<open>id\<close> and nothing else; the part of a run that the
  model does not follow ends without a failure. The values of the tracer object and of
  its two bound methods.
\<close>

definition builtin_id :: pyvalue where
  "builtin_id = \<lparr>v_class = ''builtin_function_or_method'', v_id = 31, v_scalar = False,
                  v_repr = ''<built-in function id>'', v_size = Some 72\<rparr>"

definition sample_interpreter :: "'s interpreter" where
  "sample_interpreter =
     \<lparr>compile_error = (\<lambda>text. None),
      builtins_module = \<lparr>v_class = ''dict'', v_id = 21, v_scalar = False,
                          v_repr = ''{...}'', v_size = Some 4696\<rparr>,
      builtins_of = (\<lambda>g name. if name = ''id'' then Bound (builtin_id, Plain) else Unbound),
      annotated = (\<lambda>text. False),
      annotations_object = \<lparr>v_class = ''dict'', v_id = 22, v_scalar = False,
                             v_repr = ''{}'', v_size = Some 64\<rparr>,
      int_object = (\<lambda>n. \<lparr>v_class = ''int'', v_id = 40 + n, v_scalar = True,
                           v_repr = show_nat n, v_size = Some 28\<rparr>),
      run_rest = (\<lambda>lines b e st. (st, None))\<rparr>"

definition sample_tracer :: tracer_values where
  "sample_tracer =
     \<lparr>self_value = \<lparr>v_class = ''CodeVisualizer'', v_id = 11, v_scalar = False,
                      v_repr = ''<visualizer.CodeVisualizer object>'', v_size = Some 48\<rparr>,
      line_hook_value = \<lparr>v_class = ''method'', v_id = 12, v_scalar = False,
                      v_repr = ''<bound method CodeVisualizer.trace_line>'', v_size = Some 64\<rparr>,
      var_hook_value = \<lparr>v_class = ''method'', v_id = 13, v_scalar = False,
                      v_repr = ''<bound method CodeVisualizer.trace_var>'', v_size = Some 64\<rparr>\<rparr>"

definition tree_id_assign :: pyobj where
  \<comment> \<open>the source \<^verbatim>\<open>id = 1\<close>\<close>
  "tree_id_assign = mk_Module [mk_Assign 1 [mk_Name 1 ''id'' ''Store''] (mk_Constant 1 (PyInt 1))]"

definition tree_total_assign :: pyobj where
  \<comment> \<open>the four lines \<^verbatim>\<open># setup\<close>, an empty line, \<^verbatim>\<open>total = 0\<close>, \<^verbatim>\<open>print(total)\<close>\<close>
  "tree_total_assign =
     mk_Module [mk_Assign 3 [mk_Name 3 ''total'' ''Store''] (mk_Constant 3 (PyInt 0)),
                mk_Expr 4 (mk_Call 4 (mk_Name 4 ''print'' ''Load'') [mk_Name 4 ''total'' ''Load''])]"

section \<open>Auxiliary notions\<close>

text \<open>
  Notions the proofs use: the calls the recursion counter counts, the key list of a
  dictionary after an insertion, the nodes that count as data structures, and the number
  of nodes below a list of children.
\<close>

definition is_counted_call :: "string list \<Rightarrow> pyobj \<Rightarrow> bool" where
  "is_counted_call fnames n \<longleftrightarrow> is_instance n ''Call'' \<and> is_recursive_call fnames n"

fun add_key :: "string \<Rightarrow> string list \<Rightarrow> string list" where
  "add_key k [] = [k]"
| "add_key k (k' # ks) = (if k' = k then k' # ks else k' # add_key k ks)"

definition is_structure :: "pyobj \<Rightarrow> bool" where
  "is_structure n \<longleftrightarrow> structure_kind n \<noteq> None"

definition nodes_below :: "pyobj list \<Rightarrow> nat" where
  "nodes_below children = length (concat (map subtree_nodes children))"

section \<open>Properties of the instrumenter\<close>

lemma split_on_nonempty: "split_on sep s \<noteq> []"
  by (induction s) (auto split: list.splits)

lemma join_split: "join_with sep (split_on sep s) = s"
proof (induction s)
  case Nil show ?case by simp
next
  case (Cons c cs)
  obtain p ps where sp: "split_on sep cs = p # ps"
    using split_on_nonempty [of sep cs] by (cases "split_on sep cs") auto
  show ?case
  proof (cases "c = sep")
    case True
    with Cons sp show ?thesis by simp
  next
    case False
    with Cons sp show ?thesis by (cases ps) auto
  qed
qed

lemma hd_split_on: "hd (split_on sep s) = takeWhile (\<lambda>c. c \<noteq> sep) s"
  by (induction s) (auto simp: split_on_nonempty split: list.splits)

lemma length_split_on: "length (split_on sep s) = Suc (length (filter (\<lambda>c. c = sep) s))"
  by (induction s) (auto split: list.splits)

lemma split_on_two: "sep \<in> set s \<Longrightarrow> 2 \<le> length (split_on sep s)"
proof -
  assume "sep \<in> set s"
  then have "filter (\<lambda>c. c = sep) s \<noteq> []" by (simp add: filter_empty_conv)
  then have "0 < length (filter (\<lambda>c. c = sep) s)" by blast
  then show ?thesis unfolding length_split_on by linarith
qed

lemma join_snoc: "xs \<noteq> [] \<Longrightarrow> join_with sep (xs @ [y]) = join_with sep xs @ sep # y"
  by (induction sep xs rule: join_with.induct) auto

lemma fold_plain:
  "\<forall>line \<in> set ls. \<not> is_code_line line \<Longrightarrow>
   fold (instrument_step mk_line mk_var) ls (acc, n) = (acc @ ls, n + length ls)"
  by (induction ls arbitrary: acc n) (auto simp: instrument_step_def)

lemma var_stmts_simple:
  assumes eq: "CHR ''='' \<in> set line"
    and nodef: "\<not> startswith (strip line) ''def ''"
    and nobr: "\<not> has_bracket (strip (takeWhile (\<lambda>c. c \<noteq> CHR ''='') line))"
  shows "var_stmts mk_var line = [mk_var (strip (takeWhile (\<lambda>c. c \<noteq> CHR ''='') line))]"
proof -
  from eq have "2 \<le> length (split_on (CHR ''='') line)" by (rule split_on_two)
  with eq nodef nobr show ?thesis
    by (simp add: var_stmts_def Let_def hd_split_on)
qed

lemma instrument_step_simple_assignment:
  assumes "is_code_line line"
    and "CHR ''='' \<in> set line"
    and "\<not> startswith (strip line) ''def ''"
    and "\<not> has_bracket (strip (takeWhile (\<lambda>c. c \<noteq> CHR ''='') line))"
  shows "instrument_step mk_line mk_var line (acc, n) =
           (acc @ [mk_line n, mk_var (strip (takeWhile (\<lambda>c. c \<noteq> CHR ''='') line)), line], n + 1)"
  using assms by (simp add: instrument_step_def var_stmts_simple)

text \<open>
  Claim C5 (placement of the variable-recording statement). For a line that is neither
  blank nor a comment, contains \<open>=\<close>, does not start with \<open>def\<close> once
  stripped, and has none of \<open>(\<close>, \<open>[\<close>, \<open>{\<close> left of its first
  \<open>=\<close>, both instrumenters emit three lines in this order: the line marker, the
  variable-recording statement, the original line. The recording statement therefore
  stands immediately before the original line, not after it.
\<close>

theorem record_statement_precedes_line:
  assumes "is_code_line line"
    and "CHR ''='' \<in> set line"
    and "\<not> startswith (strip line) ''def ''"
    and "\<not> has_bracket (strip (takeWhile (\<lambda>c. c \<noteq> CHR ''='') line))"
  shows "instrument_step mk_line mk_var line (acc, n) =
           (acc @ [mk_line n, mk_var (strip (takeWhile (\<lambda>c. c \<noteq> CHR ''='') line)), line], n + 1)"
  using assms by (rule instrument_step_simple_assignment)

theorem record_statement_precedes_line_witness:
  "instrument_step trace_line_stmt trace_var_stmt ''x = 1'' ([], 1) =
     ([''__trace_line__(1)'', ''__trace_var__('' @ [CHR 0x22] @ ''x'' @ [CHR 0x22] @ '', x)'', ''x = 1''], 2)
   \<and> instrument_step take_snapshot_stmt record_memory_stmt ''x = 1'' ([], 1) =
     ([''__memory_tracker__.take_snapshot(1)'', ''__record_memory__('' @ [CHR 0x22] @ ''x'' @ [CHR 0x22] @ '', x)'', ''x = 1''], 2)"
proof -
  have h1: "is_code_line ''x = 1''" by code_simp
  have h2: "CHR ''='' \<in> set ''x = 1''" by simp
  have h3: "\<not> startswith (strip ''x = 1'') ''def ''" by code_simp
  have h4: "\<not> has_bracket (strip (takeWhile (\<lambda>c. c \<noteq> CHR ''='') ''x = 1''))" by code_simp
  have v: "strip (takeWhile (\<lambda>c. c \<noteq> CHR ''='') ''x = 1'') = ''x''" by code_simp
  have l1: "trace_line_stmt 1 = ''__trace_line__(1)''" by code_simp
  have l2: "take_snapshot_stmt 1 = ''__memory_tracker__.take_snapshot(1)''" by code_simp
  have t1: "trace_var_stmt ''x'' = ''__trace_var__('' @ [CHR 0x22] @ ''x'' @ [CHR 0x22] @ '', x)''"
    by code_simp
  have t2: "record_memory_stmt ''x'' = ''__record_memory__('' @ [CHR 0x22] @ ''x'' @ [CHR 0x22] @ '', x)''"
    by code_simp
  have a: "instrument_step trace_line_stmt trace_var_stmt ''x = 1'' ([], 1) =
             ([] @ [trace_line_stmt 1, trace_var_stmt ''x'', ''x = 1''], 1 + 1)"
    using record_statement_precedes_line [OF h1 h2 h3 h4, of trace_line_stmt trace_var_stmt "[]" 1]
    unfolding v .
  have b: "instrument_step take_snapshot_stmt record_memory_stmt ''x = 1'' ([], 1) =
             ([] @ [take_snapshot_stmt 1, record_memory_stmt ''x'', ''x = 1''], 1 + 1)"
    using record_statement_precedes_line [OF h1 h2 h3 h4, of take_snapshot_stmt record_memory_stmt "[]" 1]
    unfolding v .
  show ?thesis unfolding a b l1 l2 t1 t2 by simp
qed

text \<open>
  Claim C7 (blank and comment lines). When every physical line of the input is blank or
  starts with \<open>#\<close> once stripped (the empty string is one blank line), the
  execution variant returns the input unchanged, and the memory variant returns the input
  followed by a newline and one \<open>take_snapshot\<close> statement whose line number is
  the number of physical lines plus one.
\<close>

theorem blank_and_comment_lines_unchanged:
  assumes "\<forall>line \<in> set (split_on (CHR 0x0A) code). strip line = [] \<or> startswith (strip line) ''#''"
  shows "instrument_code code = code \<and>
         memory_instrument_code code =
           code @ [CHR 0x0A] @ take_snapshot_stmt (length (split_on (CHR 0x0A) code) + 1)"
proof -
  let ?ls = "split_on (CHR 0x0A) code"
  from assms have plain: "\<forall>line \<in> set ?ls. \<not> is_code_line line"
    by (auto simp: is_code_line_def)
  have loop: "instrument_loop mk_line mk_var ?ls = (?ls, 1 + length ?ls)" for mk_line mk_var
    using fold_plain [OF plain, of mk_line mk_var "[]" 1] by (simp add: instrument_loop_def)
  have "instrument_code code = code"
    by (simp add: instrument_code_def loop join_split)
  moreover have "memory_instrument_code code =
      code @ [CHR 0x0A] @ take_snapshot_stmt (length ?ls + 1)"
    by (simp add: memory_instrument_code_def loop join_snoc split_on_nonempty join_split)
  ultimately show ?thesis by simp
qed

theorem blank_and_comment_lines_unchanged_witness:
  "instrument_code [] = [] \<and>
   memory_instrument_code [] = ''\<newline>__memory_tracker__.take_snapshot(2)'' \<and>
   instrument_code (''# setup\<newline>   \<newline>  # done'') = ''# setup\<newline>   \<newline>  # done'' \<and>
   memory_instrument_code (''# setup\<newline>   \<newline>  # done'') =
     ''# setup\<newline>   \<newline>  # done\<newline>__memory_tracker__.take_snapshot(4)''"
proof -
  have h0: "\<forall>line \<in> set (split_on (CHR 0x0A) []). strip line = [] \<or> startswith (strip line) ''#''"
    by code_simp
  have h1: "\<forall>line \<in> set (split_on (CHR 0x0A) ''# setup\<newline>   \<newline>  # done'').
              strip line = [] \<or> startswith (strip line) ''#''"
    by code_simp
  have s0: "take_snapshot_stmt (length (split_on (CHR 0x0A) []) + 1) = ''__memory_tracker__.take_snapshot(2)''"
    by code_simp
  have s1: "take_snapshot_stmt (length (split_on (CHR 0x0A) ''# setup\<newline>   \<newline>  # done'') + 1)
              = ''__memory_tracker__.take_snapshot(4)''"
    by code_simp
  from blank_and_comment_lines_unchanged [OF h0] blank_and_comment_lines_unchanged [OF h1]
  show ?thesis unfolding s0 s1 by simp
qed

text \<open>
  Claim C6 (the two-line \<open>for\<close> scenario). For the lines
  \<^verbatim>\<open>for i in range(3):\<close> and \<^verbatim>\<open>    print(i)\<close> the classifier reports
  time \<open>O(n)\<close> and space \<open>O(1)\<close>. The instrumented text the tracer hands to
  \<open>exec\<close> has the second line marker in column 0 between the loop header and the
  indented \<open>print\<close>, so the loop header is followed by a statement that is not
  indented.
\<close>

theorem for_print_scenario:
  "time_complexity (analyze_tree tree_for_print) = ''O(n)'' \<and>
   space_complexity (analyze_tree tree_for_print) = ''O(1)'' \<and>
   instrument_code ''for i in range(3):\<newline>    print(i)'' =
     ''__trace_line__(1)\<newline>for i in range(3):\<newline>__trace_line__(2)\<newline>    print(i)''"
  by code_simp

section \<open>Properties of the classifier\<close>

subsection \<open>The walk visits each node of the tree once\<close>

lemma mset_concat_map: "mset (concat (map f xs)) = (\<Sum>x\<in>#mset xs. mset (f x))"
  by (induction xs) auto

lemma walk_queue_mset: "mset (walk_queue todo) = (\<Sum>n\<in>#mset todo. mset (subtree_nodes n))"
proof (induction todo rule: walk_queue.induct)
  case 1
  show ?case by simp
next
  case (2 node todo)
  have "mset (subtree_nodes node) =
          {#node#} + (\<Sum>n\<in>#mset (iter_child_nodes node). mset (subtree_nodes n))"
    by (subst subtree_nodes.simps) (simp add: mset_concat_map)
  with 2 show ?case by simp
qed

lemma walk_mset: "mset (walk tree) = mset (subtree_nodes tree)"
  unfolding walk_def walk_queue_mset by simp

lemma walk_filter_length: "length (filter P (walk tree)) = length (filter P (subtree_nodes tree))"
proof -
  have "mset (filter P (walk tree)) = mset (filter P (subtree_nodes tree))"
    by (simp only: mset_filter walk_mset)
  then show ?thesis by (metis size_mset)
qed

subsection \<open>What the walk counts\<close>

lemma loop_not_call: "is_loop n \<Longrightarrow> \<not> is_instance n ''Call''"
  by (cases n) (auto simp: is_loop_def)

lemma visit_recursive_calls:
  "recursive_calls (visit fnames n c) =
     recursive_calls c + (if is_counted_call fnames n then 1 else 0)"
  by (auto simp: visit_def count_structure_def track_loops_and_calls_def Let_def
      is_counted_call_def loop_not_call split: option.splits)

lemma fold_recursive_calls:
  "recursive_calls (fold (visit fnames) xs c) =
     recursive_calls c + length (filter (is_counted_call fnames) xs)"
  by (induction xs arbitrary: c) (auto simp: visit_recursive_calls)

lemma visit_loop_stack:
  "loop_stack (visit fnames n c) = (if is_loop n then loop_stack c @ [n] else loop_stack c)"
  by (auto simp: visit_def count_structure_def track_loops_and_calls_def Let_def
      split: option.splits)

lemma visit_max_loop_depth:
  "max_loop_depth (visit fnames n c) =
     (if is_loop n then max (max_loop_depth c) (Suc (length (loop_stack c))) else max_loop_depth c)"
  by (auto simp: visit_def count_structure_def track_loops_and_calls_def Let_def
      split: option.splits)

lemma fold_loop_stack:
  "loop_stack (fold (visit fnames) xs c) = loop_stack c @ filter is_loop xs"
  by (induction xs arbitrary: c) (auto simp: visit_loop_stack)

lemma fold_max_loop_depth:
  "max_loop_depth c = length (loop_stack c) \<Longrightarrow>
   max_loop_depth (fold (visit fnames) xs c) = length (loop_stack c) + length (filter is_loop xs)"
proof (induction xs arbitrary: c)
  case Nil
  then show ?case by simp
next
  case (Cons n xs)
  have inv: "max_loop_depth (visit fnames n c) = length (loop_stack (visit fnames n c))"
    using Cons.prems by (simp add: visit_max_loop_depth visit_loop_stack)
  from Cons.IH [OF inv] show ?case by (simp add: visit_loop_stack)
qed

lemma keys_dict_set: "map fst (dict_set d k v) = add_key k (map fst d)"
  by (induction d k v rule: dict_set.induct) auto

lemma set_add_key: "set (add_key k ks) = insert k (set ks)"
  by (induction ks) auto

lemma distinct_add_key: "distinct ks \<Longrightarrow> distinct (add_key k ks)"
  by (induction ks) (auto simp: set_add_key)

lemma visit_function_calls_keys:
  "map fst (function_calls (visit fnames n c)) =
     (if is_instance n ''Call'' then add_key (call_func_name n) (map fst (function_calls c))
      else map fst (function_calls c))"
  by (auto simp: visit_def count_structure_def track_loops_and_calls_def Let_def
      keys_dict_set loop_not_call split: option.splits)

lemma fold_function_calls_keys:
  "set (map fst (function_calls (fold (visit fnames) xs c))) =
     set (map fst (function_calls c)) \<union> call_func_name ` {n \<in> set xs. is_instance n ''Call''}"
proof (induction xs arbitrary: c)
  case Nil
  show ?case by simp
next
  case (Cons n xs)
  show ?case
    unfolding fold_simps Cons.IH visit_function_calls_keys
    by (auto simp: set_add_key)
qed

lemma fold_function_calls_distinct:
  "distinct (map fst (function_calls c)) \<Longrightarrow>
   distinct (map fst (function_calls (fold (visit fnames) xs c)))"
proof (induction xs arbitrary: c)
  case Nil
  then show ?case by simp
next
  case (Cons n xs)
  have "distinct (map fst (function_calls (visit fnames n c)))"
    using Cons.prems by (simp add: visit_function_calls_keys distinct_add_key)
  from Cons.IH [OF this] show ?case by simp
qed

subsection \<open>The sort pass\<close>

lemma check_sort_call_time:
  "time_complexity (check_sort_call (f, k) a) =
     (if f = ''sort'' \<or> f = ''sorted''
      then (if time_complexity a = ''O(1)'' then ''O(n log n)'' else time_complexity a @ '' + O(n log n)'')
      else time_complexity a)"
  by (simp add: check_sort_call_def)

lemma append_suffix_not_O1: "t @ '' + O(n log n)'' \<noteq> ''O(1)''"
proof
  assume "t @ '' + O(n log n)'' = ''O(1)''"
  then have "length (t @ '' + O(n log n)'') = length ''O(1)''" by (rule arg_cong)
  then show False by simp
qed

lemma fold_sort_time:
  "time_complexity a \<noteq> ''O(1)'' \<Longrightarrow>
   time_complexity (fold check_sort_call d a) =
     time_complexity a @
       concat (map (\<lambda>k. '' + O(n log n)'') (filter (\<lambda>k. k = ''sort'' \<or> k = ''sorted'') (map fst d)))"
proof (induction d arbitrary: a)
  case Nil
  show ?case by simp
next
  case (Cons p d)
  obtain f k where p: "p = (f, k)" by (cases p)
  show ?case
  proof (cases "f = ''sort'' \<or> f = ''sorted''")
    case True
    with Cons.prems have t: "time_complexity (check_sort_call (f, k) a) = time_complexity a @ '' + O(n log n)''"
      by (simp add: check_sort_call_time)
    then have "time_complexity (check_sort_call (f, k) a) \<noteq> ''O(1)''"
      by (simp only: append_suffix_not_O1 not_False_eq_True)
    from Cons.IH [OF this] True show ?thesis
      unfolding p fold_simps list.map fst_conv t by simp
  next
    case False
    then have t: "time_complexity (check_sort_call (f, k) a) = time_complexity a"
      by (simp add: check_sort_call_time)
    with Cons.prems have "time_complexity (check_sort_call (f, k) a) \<noteq> ''O(1)''" by simp
    from Cons.IH [OF this] False show ?thesis
      unfolding p fold_simps list.map fst_conv t by simp
  qed
qed

lemma fold_sort_time_none:
  "\<forall>k \<in> set (map fst d). k \<noteq> ''sort'' \<and> k \<noteq> ''sorted'' \<Longrightarrow>
   time_complexity (fold check_sort_call d a) = time_complexity a"
proof (induction d arbitrary: a)
  case Nil
  show ?case by simp
next
  case (Cons p d)
  obtain f k where p: "p = (f, k)" by (cases p)
  from Cons.prems have "f \<noteq> ''sort'' \<and> f \<noteq> ''sorted''" by (simp add: p)
  then have "time_complexity (check_sort_call (f, k) a) = time_complexity a"
    by (simp add: check_sort_call_time)
  moreover from Cons.prems have "\<forall>k \<in> set (map fst d). k \<noteq> ''sort'' \<and> k \<noteq> ''sorted''" by simp
  ultimately show ?case using Cons.IH by (simp add: p)
qed

lemma distinct_sort_keys:
  assumes "distinct ks"
  shows "concat (map (\<lambda>k. '' + O(n log n)'') (filter (\<lambda>k. k = ''sort'' \<or> k = ''sorted'') ks)) =
         concat (map (\<lambda>k. if k \<in> set ks then '' + O(n log n)'' else []) [''sort'', ''sorted''])"
  using assms
proof (induction ks)
  case Nil
  show ?case by simp
next
  case (Cons k ks)
  then show ?case by (auto simp: filter_empty_conv)
qed

subsection \<open>The label\<close>

lemma count_tree_recursive_calls:
  "recursive_calls (count_tree tree) =
     length (filter (is_counted_call (function_names tree)) (walk tree))"
  by (simp add: count_tree_def fold_recursive_calls init_counters_def)

lemma count_tree_max_loop_depth:
  "max_loop_depth (count_tree tree) = length (filter is_loop (walk tree))"
  using fold_max_loop_depth [of init_counters "function_names tree" "walk tree"]
  by (simp add: count_tree_def init_counters_def)

lemma count_tree_loop_stack:
  "loop_stack (count_tree tree) = filter is_loop (walk tree)"
  by (simp add: count_tree_def fold_loop_stack init_counters_def)

lemma count_tree_keys: "set (map fst (function_calls (count_tree tree))) = called_names tree"
  unfolding count_tree_def fold_function_calls_keys called_names_def
  by (auto simp: init_counters_def)

lemma count_tree_distinct: "distinct (map fst (function_calls (count_tree tree)))"
  unfolding count_tree_def
  by (rule fold_function_calls_distinct) (simp add: init_counters_def)

lemma determine_space_time: "time_complexity (determine_space c a) = time_complexity a"
  by (simp add: determine_space_def Let_def)

lemma analyze_tree_time:
  "time_complexity (analyze_tree tree) =
     time_complexity (fold check_sort_call (function_calls (count_tree tree))
                        (determine_time (count_tree tree) init_analysis))"
  by (simp add: analyze_tree_def Let_def determine_space_time)

lemma sorted_label:
  assumes "time_complexity (determine_time (count_tree tree) init_analysis) \<noteq> ''O(1)''"
  shows "time_complexity (analyze_tree tree) =
           time_complexity (determine_time (count_tree tree) init_analysis) @ sort_terms tree"
  unfolding analyze_tree_time fold_sort_time [OF assms] sort_terms_def
    distinct_sort_keys [OF count_tree_distinct] count_tree_keys ..

lemma recursive_iff:
  "0 < recursive_calls (count_tree tree) \<longleftrightarrow>
     (\<exists>n \<in> set (walk tree). is_instance n ''Call'' \<and> is_recursive_call (function_names tree) n)"
  by (auto simp: count_tree_recursive_calls filter_empty_conv is_counted_call_def)

text \<open>
  Claim C1 (recursive-name calls), as amended. When some call whose callee is a bare name
  matches a collected function name, wherever the call stands and whatever loops the tree
  has, the time label is \<open>O(2^n)\<close> followed by one \<open>+ O(n log n)\<close> term for
  each of the names \<open>sort\<close> and \<open>sorted\<close> that some call targets; it is
  exactly \<open>O(2^n)\<close> when no call targets either name.
\<close>

theorem recursive_name_call_label:
  assumes "\<exists>n \<in> set (walk tree). is_instance n ''Call'' \<and> is_recursive_call (function_names tree) n"
  shows "time_complexity (analyze_tree tree) = ''O(2^n)'' @ sort_terms tree \<and>
         (''sort'' \<notin> called_names tree \<and> ''sorted'' \<notin> called_names tree \<longrightarrow>
            time_complexity (analyze_tree tree) = ''O(2^n)'')"
proof -
  from assms have rec: "0 < recursive_calls (count_tree tree)" by (simp only: recursive_iff)
  then have t: "time_complexity (determine_time (count_tree tree) init_analysis) = ''O(2^n)''"
    by (simp add: determine_time_def)
  then have "time_complexity (determine_time (count_tree tree) init_analysis) \<noteq> ''O(1)''" by simp
  from sorted_label [OF this] have "time_complexity (analyze_tree tree) = ''O(2^n)'' @ sort_terms tree"
    unfolding t .
  then show ?thesis by (simp add: sort_terms_def)
qed

theorem recursive_name_call_label_witness:
  "(\<exists>n \<in> set (walk tree_call_outside).
      is_instance n ''Call'' \<and> is_recursive_call (function_names tree_call_outside) n) \<and>
   length (filter is_loop (walk tree_call_outside)) = 2 \<and>
   time_complexity (analyze_tree tree_call_outside) = ''O(2^n)''"
proof -
  have h: "\<exists>n \<in> set (walk tree_call_outside).
      is_instance n ''Call'' \<and> is_recursive_call (function_names tree_call_outside) n"
    by code_simp
  have n1: "''sort'' \<notin> called_names tree_call_outside" by code_simp
  have n2: "''sorted'' \<notin> called_names tree_call_outside" by code_simp
  have l: "length (filter is_loop (walk tree_call_outside)) = 2" by code_simp
  from recursive_name_call_label [OF h] n1 n2 h l show ?thesis by blast
qed

theorem recursive_name_call_label_counterexample:
  "0 < recursive_calls (count_tree tree_rec_sorted) \<and>
   time_complexity (analyze_tree tree_rec_sorted) = ''O(2^n) + O(n log n)'' \<and>
   time_complexity (analyze_tree tree_rec_sorted) \<noteq> ''O(2^n)''"
  by code_simp

text \<open>
  Claim C2 (the loop counter), as amended. With no recursive-name call, the loop stack is
  never popped: it ends as the list of all loop nodes the walk met, and the depth that
  decides the label is the number of \<open>For\<close> and \<open>While\<close> nodes anywhere in
  the tree. With more than one loop the label is \<open>O(n^depth)\<close> followed by the
  terms of the sort pass; a tree with exactly two loops, nested or not, and no call to
  \<open>sort\<close> or \<open>sorted\<close> gets exactly \<open>O(n^2)\<close>.
\<close>

theorem loop_counter_counts_all_loops:
  assumes "\<not> (\<exists>n \<in> set (walk tree). is_instance n ''Call'' \<and> is_recursive_call (function_names tree) n)"
  shows "loop_stack (count_tree tree) = filter is_loop (walk tree) \<and>
         max_loop_depth (count_tree tree) = length (filter is_loop (subtree_nodes tree)) \<and>
         (1 < length (filter is_loop (subtree_nodes tree)) \<longrightarrow>
            time_complexity (analyze_tree tree) =
              ''O(n^'' @ show_nat (length (filter is_loop (subtree_nodes tree))) @ '')'' @ sort_terms tree) \<and>
         (length (filter is_loop (subtree_nodes tree)) = 2 \<and>
          ''sort'' \<notin> called_names tree \<and> ''sorted'' \<notin> called_names tree \<longrightarrow>
            time_complexity (analyze_tree tree) = ''O(n^2)'')"
proof -
  let ?L = "length (filter is_loop (subtree_nodes tree))"
  have depth: "max_loop_depth (count_tree tree) = ?L"
    by (simp add: count_tree_max_loop_depth walk_filter_length)
  from assms have "\<not> 0 < recursive_calls (count_tree tree)"
    unfolding recursive_iff .
  then have norec: "recursive_calls (count_tree tree) = 0" by simp
  have label: "time_complexity (analyze_tree tree) = ''O(n^'' @ show_nat ?L @ '')'' @ sort_terms tree"
    if "1 < ?L"
  proof -
    from that norec depth
    have t: "time_complexity (determine_time (count_tree tree) init_analysis) = ''O(n^'' @ show_nat ?L @ '')''"
      by (simp add: determine_time_def)
    then have "time_complexity (determine_time (count_tree tree) init_analysis) \<noteq> ''O(1)''" by simp
    from sorted_label [OF this] show ?thesis unfolding t by simp
  qed
  have two: "show_nat 2 = ''2''" by code_simp
  have "time_complexity (analyze_tree tree) = ''O(n^2)''"
    if "?L = 2" "''sort'' \<notin> called_names tree" "''sorted'' \<notin> called_names tree"
    using label that by (simp add: sort_terms_def two)
  with depth label show ?thesis by (simp add: count_tree_loop_stack)
qed

theorem loop_counter_counts_all_loops_witness:
  "\<not> (\<exists>n \<in> set (walk tree_two_loops).
        is_instance n ''Call'' \<and> is_recursive_call (function_names tree_two_loops) n) \<and>
   length (filter is_loop (subtree_nodes tree_two_loops)) = 2 \<and>
   max_loop_depth (count_tree tree_two_loops) = 2 \<and>
   time_complexity (analyze_tree tree_two_loops) = ''O(n^2)''"
proof -
  have h: "\<not> (\<exists>n \<in> set (walk tree_two_loops).
        is_instance n ''Call'' \<and> is_recursive_call (function_names tree_two_loops) n)"
    by code_simp
  have n1: "''sort'' \<notin> called_names tree_two_loops" by code_simp
  have n2: "''sorted'' \<notin> called_names tree_two_loops" by code_simp
  have l: "length (filter is_loop (subtree_nodes tree_two_loops)) = 2" by code_simp
  note facts = loop_counter_counts_all_loops [OF h]
  from facts have "max_loop_depth (count_tree tree_two_loops) =
      length (filter is_loop (subtree_nodes tree_two_loops))" by blast
  with l have d: "max_loop_depth (count_tree tree_two_loops) = 2" by simp
  from facts l n1 n2 have t: "time_complexity (analyze_tree tree_two_loops) = ''O(n^2)''" by blast
  from h l d t show ?thesis by blast
qed

theorem loop_counter_counts_all_loops_counterexample:
  "recursive_calls (count_tree tree_loops_sorted) = 0 \<and>
   length (filter is_loop (subtree_nodes tree_loops_sorted)) = 2 \<and>
   time_complexity (analyze_tree tree_loops_sorted) = ''O(n^2) + O(n log n)'' \<and>
   time_complexity (analyze_tree tree_loops_sorted) \<noteq> ''O(n^2)''"
  by code_simp

text \<open>
  Claim C3 (the list-and-sort scenario), as amended. For the lines
  \<^verbatim>\<open>x = [1,2,3]\<close> and \<^verbatim>\<open>x.sort()\<close> the attribute call is recorded under
  its attribute name \<open>sort\<close>, the one list literal gives space \<open>O(n)\<close>, and
  the time label, \<open>O(1)\<close> before the sort pass, is replaced by
  \<open>O(n log n)\<close>; nothing is concatenated.
\<close>

theorem list_sort_scenario:
  "call_func_name (mk_Call 2 (mk_Attribute 2 (mk_Name 2 ''x'' ''Load'') ''sort'') []) = ''sort'' \<and>
   function_calls (count_tree tree_list_sort) = [(''sort'', 1)] \<and>
   data_structures (count_tree tree_list_sort) = [(''list'', 1)] \<and>
   analyze_tree tree_list_sort =
     \<lparr>time_complexity = ''O(n log n)'', space_complexity = ''O(n)'',
      issues = [''Using sort adds O(n log n) time complexity''], recommendations = []\<rparr>"
  by code_simp

theorem list_sort_scenario_counterexample:
  "time_complexity (analyze_tree tree_list_sort) \<noteq> ''O(1) + O(n log n)''"
  by code_simp

text \<open>
  Claim C4 (parse failure). When parsing raises, \<open>analyze_complexity\<close> returns the
  report whose two labels are \<open>Unknown\<close> and whose only issue is
  \<open>Analysis error:\<close> followed by the text of the exception; the exception does not
  leave the function.
\<close>

theorem parse_failure_report:
  assumes "parse code = Inl e"
  shows "analyze_complexity parse code =
           \<lparr>time_complexity = ''Unknown'', space_complexity = ''Unknown'',
            issues = [''Analysis error: '' @ e], recommendations = [''Check syntax errors'']\<rparr>"
  using assms by (simp add: analyze_complexity_def)

theorem parse_failure_report_witness:
  "analyze_complexity (\<lambda>code. Inl ([CHR 0x27] @ ''('' @ [CHR 0x27] @ '' was never closed (<unknown>, line 1)'')) ''print('' =
     \<lparr>time_complexity = ''Unknown'', space_complexity = ''Unknown'',
      issues = [''Analysis error: '' @ [CHR 0x27] @ ''('' @ [CHR 0x27] @ '' was never closed (<unknown>, line 1)''],
      recommendations = [''Check syntax errors'']\<rparr>"
  by (rule parse_failure_report) (rule refl)

section \<open>Properties of the hooks and the serializer\<close>

lemma digit_char_simps:
  "digit_char 0 = CHR ''0''" "digit_char 1 = CHR ''1''" "digit_char 2 = CHR ''2''"
  "digit_char 3 = CHR ''3''" "digit_char 4 = CHR ''4''" "digit_char 5 = CHR ''5''"
  "digit_char 6 = CHR ''6''" "digit_char 7 = CHR ''7''" "digit_char 8 = CHR ''8''"
  "digit_char 9 = CHR ''9''" "digit_char (Suc 0) = CHR ''1''"
  by code_simp+

lemma map_of_store_var: "map_of (store_var d k v) k = Some v"
  by (induction d k v rule: store_var.induct) auto

text \<open>
  Claim C8 (formatting of recorded values), as amended. Both hooks show a value that is an
  \<open>int\<close>, \<open>float\<close>, \<open>str\<close>, \<open>bool\<close> or \<open>None\<close> by its
  \<open>repr\<close>. Any other value is shown by a placeholder built from the name of its
  class only: the memory tracker writes \<open><TypeName object>\<close>, the execution
  tracer writes \<open><TypeName object at ID>\<close> with the identity of the object.
\<close>

theorem hook_value_format:
  "variable_states (trace_var var_name v tracer) =
     variable_states tracer @
       [(var_name, if v_scalar v then v_repr v
                   else ''<'' @ v_class v @ '' object at '' @ show_nat (v_id v) @ ''>'')] \<and>
   map_of (current_snapshot (record_memory var_name v tracker)) var_name =
     Some \<lparr>address = v_id v, type_name = v_class v, size_estimate = v_size v,
           shown_value = (if v_scalar v then v_repr v else ''<'' @ v_class v @ '' object>'')\<rparr>"
  by (simp add: trace_var_def record_memory_def Let_def map_of_store_var)

theorem hook_value_format_counterexample:
  "\<not> v_scalar sample_list_value \<and>
   variable_states (trace_var ''x'' sample_list_value new_code_visualizer) =
     [(''x'', ''<list object at 140234>'')] \<and>
   snd (last (variable_states (trace_var ''x'' sample_list_value new_code_visualizer))) \<noteq>
     ''<'' @ v_class sample_list_value @ '' object>''"
  by (simp add: trace_var_def Let_def sample_list_value_def new_code_visualizer_def show_nat.simps digit_char_simps)

text \<open>
  Claim C9 (serializing a single constant), as amended. The tree of the source
  \<^verbatim>\<open>42\<close> serializes to three structural nodes: the \<open>Module\<close> root (id 1,
  depth 0), its one child \<open>Expr\<close> (id 2, field \<open>body\<close>), and that node's one
  child \<open>Constant\<close> (id 3, field \<open>value\<close>), which carries the text
  \<open>42\<close> and has no children.
\<close>

theorem constant_tree_serialization:
  "parse_ast_node tree_const 0 0 =
     (NodeInfo 1 ''Module'' 0 None None None None None None
        [NodeInfo 2 ''Expr'' 1 (Some 1) None None None None (Some ''body'')
           [NodeInfo 3 ''Constant'' 2 (Some 1) None None None (Some ''42'') (Some ''value'') []]], 3) \<and>
   structural_nodes (fst (parse_ast_node tree_const 0 0)) = 3"
  by code_simp

theorem constant_tree_serialization_counterexample:
  "structural_nodes (fst (parse_ast_node tree_const 0 0)) \<noteq> 1 \<and>
   n_value (fst (parse_ast_node tree_const 0 0)) = None \<and>
   n_children (fst (parse_ast_node tree_const 0 0)) \<noteq> []"
  by code_simp

section \<open>Further properties\<close>

subsection \<open>The first assignment of a source\<close>

lemma fold_instrument_append:
  "fold (instrument_step mk_line mk_var) ls (acc, n) =
     (acc @ fst (fold (instrument_step mk_line mk_var) ls ([], n)), n + length ls)"
proof (induction ls arbitrary: acc n)
  case Nil
  show ?case by simp
next
  case (Cons l ls)
  let ?a = "if is_code_line l then [mk_line n] @ var_stmts mk_var l @ [l] else [l]"
  have step: "instrument_step mk_line mk_var l (acc0, n) = (acc0 @ ?a, Suc n)" for acc0
    by (simp add: instrument_step_def)
  have "fold (instrument_step mk_line mk_var) (l # ls) (acc, n) =
          fold (instrument_step mk_line mk_var) ls (acc @ ?a, Suc n)"
    by (simp add: step)
  also have "\<dots> = ((acc @ ?a) @ fst (fold (instrument_step mk_line mk_var) ls ([], Suc n)),
                      Suc n + length ls)"
    by (rule Cons.IH)
  finally have lhs: "fold (instrument_step mk_line mk_var) (l # ls) (acc, n) =
      (acc @ ?a @ fst (fold (instrument_step mk_line mk_var) ls ([], Suc n)), n + length (l # ls))"
    by simp
  have "fold (instrument_step mk_line mk_var) (l # ls) ([], n) =
          fold (instrument_step mk_line mk_var) ls ([] @ ?a, Suc n)"
    by (simp only: fold_simps step comp_apply)
  also have "\<dots> = (([] @ ?a) @ fst (fold (instrument_step mk_line mk_var) ls ([], Suc n)),
                      Suc n + length ls)"
    by (rule Cons.IH)
  finally have "fst (fold (instrument_step mk_line mk_var) (l # ls) ([], n)) =
      ?a @ fst (fold (instrument_step mk_line mk_var) ls ([], Suc n))"
    by simp
  with lhs show ?case by simp
qed

text \<open>
  When the first line of a source that is neither blank nor a comment is a simple
  assignment, the instrumented text starts with the untouched lines before it, then the
  line marker, then the statement that records the assigned name, and only then the
  assignment itself: the recording statement reads the name before the assignment has run.
\<close>

theorem first_assignment_recorded_before_it_runs:
  assumes pre: "\<forall>l \<in> set pre. \<not> is_code_line l"
    and line: "is_code_line line" "CHR ''='' \<in> set line" "\<not> startswith (strip line) ''def ''"
      "\<not> has_bracket (strip (takeWhile (\<lambda>c. c \<noteq> CHR ''='') line))"
  shows "\<exists>rest. fst (instrument_loop mk_line mk_var (pre @ line # post)) =
           pre @ [mk_line (length pre + 1),
                  mk_var (strip (takeWhile (\<lambda>c. c \<noteq> CHR ''='') line)), line] @ rest"
proof -
  let ?step = "instrument_step mk_line mk_var"
  let ?v = "strip (takeWhile (\<lambda>c. c \<noteq> CHR ''='') line)"
  have "fold ?step (pre @ line # post) ([], 1) =
          fold ?step post (?step line (fold ?step pre ([], 1)))" by simp
  also have "fold ?step pre ([], 1) = (pre, 1 + length pre)"
    using fold_plain [OF pre, of mk_line mk_var "[]" 1] by simp
  also have "?step line (pre, 1 + length pre) =
               (pre @ [mk_line (1 + length pre), mk_var ?v, line], 1 + length pre + 1)"
    by (rule instrument_step_simple_assignment [OF line])
  also have "fold ?step post (pre @ [mk_line (1 + length pre), mk_var ?v, line], 1 + length pre + 1) =
      ((pre @ [mk_line (1 + length pre), mk_var ?v, line]) @
         fst (fold ?step post ([], 1 + length pre + 1)), 1 + length pre + 1 + length post)"
    by (rule fold_instrument_append)
  finally show ?thesis by (simp add: instrument_loop_def)
qed

theorem first_assignment_recorded_before_it_runs_witness:
  "\<exists>rest. fst (instrument_loop trace_line_stmt trace_var_stmt [''# setup'', [], ''x = 1'', ''print(x)'']) =
      [''# setup'', []] @ [trace_line_stmt (length [''# setup'', []] + 1), trace_var_stmt ''x'', ''x = 1''] @ rest"
proof -
  have pre: "\<forall>l \<in> set [''# setup'', []]. \<not> is_code_line l" by code_simp
  have h1: "is_code_line ''x = 1''" by code_simp
  have h2: "CHR ''='' \<in> set ''x = 1''" by simp
  have h3: "\<not> startswith (strip ''x = 1'') ''def ''" by code_simp
  have h4: "\<not> has_bracket (strip (takeWhile (\<lambda>c. c \<noteq> CHR ''='') ''x = 1''))" by code_simp
  have v: "strip (takeWhile (\<lambda>c. c \<noteq> CHR ''='') ''x = 1'') = ''x''" by code_simp
  from first_assignment_recorded_before_it_runs [OF pre h1 h2 h3 h4,
         of trace_line_stmt trace_var_stmt "[''print(x)'']"]
  show ?thesis unfolding v by simp
qed

subsection \<open>The space label and the labels without recursion\<close>

lemma dict_set_total:
  "sum_list (map snd (dict_set d k (Suc (dict_get d k 0)))) = Suc (sum_list (map snd d))"
  by (induction d) (auto simp: dict_get_def)

lemma dict_set_keys: "fst ` set (dict_set d k v) = insert k (fst ` set d)"
  by (induction d k v rule: dict_set.induct) auto

lemma visit_data_structures:
  "data_structures (visit fnames n c) =
     (case structure_kind n of
        Some k \<Rightarrow> dict_set (data_structures c) k (dict_get (data_structures c) k 0 + 1)
      | None \<Rightarrow> data_structures c)"
  by (auto simp: visit_def count_structure_def track_loops_and_calls_def Let_def
      split: option.splits)

lemma fold_data_structures_total:
  "sum_list (map snd (data_structures (fold (visit fnames) xs c))) =
     sum_list (map snd (data_structures c)) + length (filter is_structure xs)"
proof (induction xs arbitrary: c)
  case Nil
  show ?case by simp
next
  case (Cons n xs)
  show ?case
  proof (cases "structure_kind n")
    case None
    then have "\<not> is_structure n" by (simp add: is_structure_def)
    with None show ?thesis
      unfolding fold_simps comp_apply Cons.IH by (simp add: visit_data_structures)
  next
    case (Some k)
    then have "is_structure n" by (simp add: is_structure_def)
    with Some show ?thesis
      unfolding fold_simps comp_apply Cons.IH by (simp add: visit_data_structures dict_set_total)
  qed
qed

lemma fold_data_structures_keys:
  "fst ` set (data_structures (fold (visit fnames) xs c)) =
     fst ` set (data_structures c) \<union> {k. \<exists>n \<in> set xs. structure_kind n = Some k}"
proof (induction xs arbitrary: c)
  case Nil
  show ?case by simp
next
  case (Cons n xs)
  show ?case
    unfolding fold_simps comp_apply Cons.IH
    by (cases "structure_kind n") (auto simp: visit_data_structures dict_set_keys)
qed

lemma structure_kind_range:
  "structure_kind n = Some k \<Longrightarrow> k = ''list'' \<or> k = ''dict'' \<or> k = ''set''"
  by (auto simp: structure_kind_def split: if_splits)

lemma fold_sort_space: "space_complexity (fold check_sort_call d a) = space_complexity a"
  by (induction d arbitrary: a) (auto simp: check_sort_call_def)

lemma walk_set: "set (walk tree) = set (subtree_nodes tree)"
  using walk_mset [of tree] by (metis set_mset_mset)

text \<open>
  The space label is \<open>O(n)\<close> exactly when the tree holds a list, dictionary or set
  literal or comprehension; otherwise it is \<open>O(1)\<close>.
\<close>

theorem space_label:
  "space_complexity (analyze_tree tree) =
     (if \<exists>n \<in> set (subtree_nodes tree). structure_kind n \<noteq> None then ''O(n)'' else ''O(1)'')"
proof -
  define total where "total = sum_list (map snd (data_structures (count_tree tree)))"
  define K where "K = fst ` set (data_structures (count_tree tree))"
  have keys: "K = {k. \<exists>n \<in> set (walk tree). structure_kind n = Some k}"
    by (simp add: K_def count_tree_def fold_data_structures_keys init_counters_def)
  have space: "space_complexity (analyze_tree tree) =
      (if 3 < total \<or> ''list'' \<in> K \<or> ''dict'' \<in> K \<or> ''set'' \<in> K then ''O(n)'' else ''O(1)'')"
    by (simp add: total_def K_def analyze_tree_def Let_def determine_space_def fold_sort_space)
  show ?thesis
  proof (cases "\<exists>n \<in> set (subtree_nodes tree). structure_kind n \<noteq> None")
    case True
    then obtain n k where "n \<in> set (walk tree)" "structure_kind n = Some k"
      by (auto simp: walk_set)
    then have "k \<in> K" "k = ''list'' \<or> k = ''dict'' \<or> k = ''set''"
      by (auto simp: keys dest: structure_kind_range)
    then have "3 < total \<or> ''list'' \<in> K \<or> ''dict'' \<in> K \<or> ''set'' \<in> K" by auto
    then have "space_complexity (analyze_tree tree) = ''O(n)''" unfolding space by (rule if_P)
    with True show ?thesis by (simp only: if_True)
  next
    case False
    then have none: "\<forall>n \<in> set (walk tree). structure_kind n = None" by (simp add: walk_set)
    then have "filter is_structure (walk tree) = []"
      by (simp add: filter_empty_conv is_structure_def)
    then have "total = 0"
      by (simp add: total_def count_tree_def fold_data_structures_total init_counters_def)
    moreover from none have "K = {}" by (simp add: keys)
    ultimately have "space_complexity (analyze_tree tree) = ''O(1)''" unfolding space by simp
    with False show ?thesis by (simp only: if_False)
  qed
qed

text \<open>
  With no recursive-name call: a tree without loops and without a call to \<open>sort\<close> or
  \<open>sorted\<close> gets \<open>O(1)\<close>, and a tree with exactly one loop gets
  \<open>O(n)\<close> followed by the terms of the sort pass.
\<close>

theorem loop_free_and_single_loop_labels:
  assumes "\<not> (\<exists>n \<in> set (walk tree). is_instance n ''Call'' \<and> is_recursive_call (function_names tree) n)"
  shows "(filter is_loop (subtree_nodes tree) = [] \<and>
          ''sort'' \<notin> called_names tree \<and> ''sorted'' \<notin> called_names tree \<longrightarrow>
            time_complexity (analyze_tree tree) = ''O(1)'') \<and>
         (length (filter is_loop (subtree_nodes tree)) = 1 \<longrightarrow>
            time_complexity (analyze_tree tree) = ''O(n)'' @ sort_terms tree)"
proof -
  let ?c = "count_tree tree"
  from assms have "\<not> 0 < recursive_calls ?c" unfolding recursive_iff .
  then have norec: "recursive_calls ?c = 0" by simp
  have depth: "max_loop_depth ?c = length (filter is_loop (subtree_nodes tree))"
    by (simp add: count_tree_max_loop_depth walk_filter_length)
  have zero: "time_complexity (analyze_tree tree) = ''O(1)''"
    if "filter is_loop (subtree_nodes tree) = []"
       "''sort'' \<notin> called_names tree" "''sorted'' \<notin> called_names tree"
  proof -
    from that(2,3) have "\<forall>k \<in> set (map fst (function_calls ?c)). k \<noteq> ''sort'' \<and> k \<noteq> ''sorted''"
      unfolding count_tree_keys by blast
    from fold_sort_time_none [OF this] that(1) norec depth show ?thesis
      by (simp add: analyze_tree_time determine_time_def init_analysis_def)
  qed
  have one: "time_complexity (analyze_tree tree) = ''O(n)'' @ sort_terms tree"
    if "length (filter is_loop (subtree_nodes tree)) = 1"
  proof -
    from that norec depth
    have t: "time_complexity (determine_time ?c init_analysis) = ''O(n)''"
      by (simp add: determine_time_def)
    then have "time_complexity (determine_time ?c init_analysis) \<noteq> ''O(1)''" by simp
    from sorted_label [OF this] show ?thesis unfolding t .
  qed
  from zero one show ?thesis by blast
qed

theorem loop_free_and_single_loop_labels_witness:
  "\<not> (\<exists>n \<in> set (walk tree_for_print).
        is_instance n ''Call'' \<and> is_recursive_call (function_names tree_for_print) n) \<and>
   length (filter is_loop (subtree_nodes tree_for_print)) = 1 \<and>
   time_complexity (analyze_tree tree_for_print) = ''O(n)'' \<and>
   \<not> (\<exists>n \<in> set (walk tree_const).
        is_instance n ''Call'' \<and> is_recursive_call (function_names tree_const) n) \<and>
   filter is_loop (subtree_nodes tree_const) = [] \<and>
   time_complexity (analyze_tree tree_const) = ''O(1)''"
proof -
  have h1: "\<not> (\<exists>n \<in> set (walk tree_for_print).
        is_instance n ''Call'' \<and> is_recursive_call (function_names tree_for_print) n)"
    by code_simp
  have l1: "length (filter is_loop (subtree_nodes tree_for_print)) = 1" by code_simp
  have s1: "sort_terms tree_for_print = []" by code_simp
  have h0: "\<not> (\<exists>n \<in> set (walk tree_const).
        is_instance n ''Call'' \<and> is_recursive_call (function_names tree_const) n)"
    by code_simp
  have l0: "filter is_loop (subtree_nodes tree_const) = []" by code_simp
  have n1: "''sort'' \<notin> called_names tree_const" by code_simp
  have n2: "''sorted'' \<notin> called_names tree_const" by code_simp
  from loop_free_and_single_loop_labels [OF h1] l1 s1
  have t1: "time_complexity (analyze_tree tree_for_print) = ''O(n)''" by simp
  from loop_free_and_single_loop_labels [OF h0] l0 n1 n2
  have t0: "time_complexity (analyze_tree tree_const) = ''O(1)''" by blast
  from h1 l1 t1 h0 l0 t0 show ?thesis by blast
qed

subsection \<open>The identifiers of the serializer\<close>

lemma nodes_below_simps:
  "nodes_below [] = 0"
  "nodes_below (x # xs) = length (subtree_nodes x) + nodes_below xs"
  "nodes_below (xs @ ys) = nodes_below xs + nodes_below ys"
  by (simp_all add: nodes_below_def)

lemma subtree_nodes_length:
  "length (subtree_nodes node) = Suc (nodes_below (iter_child_nodes node))"
  by (subst subtree_nodes.simps) (simp add: nodes_below_def)

lemma n_id_describe_node: "n_id (describe_node i d node cls l cs) = i"
  by (simp add: describe_node_def Let_def)

lemma n_id_set_field: "n_id (set_field f x) = n_id x"
  by (cases x) simp

lemma counter_advance:
  "snd (parse_ast_node node depth k) = (if is_ast node then k + length (subtree_nodes node) else k)"
  "snd (parse_fields fs depth k) = k + nodes_below (concat (map (\<lambda>(name, field). field_nodes field) fs))"
  "snd (parse_items f items depth k) = k + nodes_below (filter is_ast items)"
proof (induction node depth k and fs depth k and f items depth k
       rule: parse_ast_node_parse_fields_parse_items.induct)
  case (1 cls l fs depth node_id)
  then show ?case
    by (auto simp: subtree_nodes_length iter_child_nodes_def split: prod.splits)
next
  case (5 field cls l fs rest depth node_id)
  then show ?case
    by (auto simp: nodes_below_simps split: prod.splits)
next
  case (6 field items rest depth node_id)
  then show ?case
    by (auto simp: nodes_below_simps split: prod.splits)
next
  case (9 field cls l fs items depth node_id)
  then show ?case
    by (auto simp: nodes_below_simps split: prod.splits)
qed (simp_all add: nodes_below_simps)

text \<open>
  The serializer numbers nodes from one counter shared by the whole call: a node gets the
  counter's next value, and the call returns the counter advanced by the number of nodes
  of the subtree.
\<close>

theorem node_ids_from_shared_counter:
  "n_id (fst (parse_ast_node (Node cls l fs) depth k)) = k + 1 \<and>
   snd (parse_ast_node (Node cls l fs) depth k) = k + length (subtree_nodes (Node cls l fs))"
  using counter_advance(1) [of "Node cls l fs" depth k]
  by (auto simp: n_id_describe_node split: prod.splits)

section \<open>Properties of the instrumented run\<close>

subsection \<open>Decimal numerals\<close>

lemma digit_cases: "d < 10 \<Longrightarrow> d \<in> {0, 1, 2, 3, 4, 5, 6, 7, 8, 9::nat}"
  by auto

lemma is_digit_digit_char: "d < 10 \<Longrightarrow> is_digit (digit_char d)"
  using digit_cases [of d] by (auto simp: is_digit_def digit_char_simps)

lemma digit_value_digit_char: "d < 10 \<Longrightarrow> digit_value (digit_char d) = d"
  using digit_cases [of d] by (auto simp: digit_value_def digit_char_simps)

lemma digit_char_zero: "d < 10 \<Longrightarrow> digit_char d = CHR ''0'' \<longleftrightarrow> d = 0"
  using digit_cases [of d] by (auto simp: digit_char_simps)

lemma show_nat_nonempty: "show_nat n \<noteq> []"
  by (subst show_nat.simps) simp

lemma show_nat_digits: "list_all is_digit (show_nat n)"
proof (induction n rule: show_nat.induct)
  case (1 n)
  show ?case
  proof (cases "n < 10")
    case True
    then show ?thesis by (subst show_nat.simps) (simp add: is_digit_digit_char)
  next
    case False
    with 1 show ?thesis by (subst show_nat.simps) (simp add: is_digit_digit_char)
  qed
qed

lemma show_nat_hd: "0 < n \<Longrightarrow> hd (show_nat n) \<noteq> CHR ''0''"
proof (induction n rule: show_nat.induct)
  case (1 n)
  show ?case
  proof (cases "n < 10")
    case True
    with "1.prems" show ?thesis by (subst show_nat.simps) (simp add: digit_char_zero)
  next
    case False
    then have "0 < n div 10" by simp
    with 1 False have "hd (show_nat (n div 10)) \<noteq> CHR ''0''" by simp
    with False show ?thesis by (subst show_nat.simps) (simp add: show_nat_nonempty)
  qed
qed

lemma show_nat_zero: "show_nat 0 = ''0''"
  by code_simp

lemma is_int_literal_show_nat: "is_int_literal (show_nat n)"
proof (cases "n = 0")
  case True
  then show ?thesis by (simp add: is_int_literal_def show_nat_zero is_digit_def)
next
  case False
  then show ?thesis
    by (simp add: is_int_literal_def show_nat_nonempty show_nat_digits show_nat_hd)
qed

lemma read_nat_snoc: "read_nat (s @ [c]) = 10 * read_nat s + digit_value c"
  by (simp add: read_nat_def)

lemma read_nat_show_nat: "read_nat (show_nat n) = n"
proof (induction n rule: show_nat.induct)
  case (1 n)
  show ?case
  proof (cases "n < 10")
    case True
    then show ?thesis by (subst show_nat.simps) (simp add: read_nat_def digit_value_digit_char)
  next
    case False
    with 1 show ?thesis
      by (subst show_nat.simps) (simp add: read_nat_snoc digit_value_digit_char)
  qed
qed

lemma is_digit_chars: "is_digit c \<Longrightarrow> c \<noteq> CHR 0x0A \<and> c \<noteq> CHR ''('' \<and> c \<noteq> CHR '')'' \<and> c \<noteq> CHR 0x22"
  by (auto simp: is_digit_def)

lemma show_nat_no_newline: "CHR 0x0A \<notin> set (show_nat n)"
  using show_nat_digits [of n] is_digit_chars by (auto simp: list_all_iff)

subsection \<open>The injected statements, as the model reads them\<close>

lemma ident_char_plain:
  "is_ident_char c \<Longrightarrow>
     c \<noteq> CHR 0x22 \<and> c \<noteq> CHR 0x5C \<and> c \<noteq> CHR 0x0A \<and> c \<noteq> CHR ''('' \<and> c \<noteq> CHR ''[''
     \<and> c \<noteq> CHR ''{'' \<and> 32 \<le> (of_char c :: nat) \<and> (of_char c :: nat) < 127"
  unfolding is_ident_char_def is_digit_def by (elim disjE) auto

lemma identifier_chars: "is_identifier v \<Longrightarrow> \<forall>c \<in> set v. is_ident_char c"
  by (simp add: is_identifier_def list_all_iff)

lemma identifier_plain_text: "is_identifier v \<Longrightarrow> is_plain_text v"
  using ident_char_plain by (auto simp: is_plain_text_def list_all_iff dest!: identifier_chars)

lemma identifier_no_quote: "is_identifier v \<Longrightarrow> CHR 0x22 \<notin> set v"
  using ident_char_plain by (auto dest!: identifier_chars)

lemma identifier_no_newline: "is_identifier v \<Longrightarrow> CHR 0x0A \<notin> set v"
  using ident_char_plain by (auto dest!: identifier_chars)

lemma identifier_no_bracket: "is_identifier v \<Longrightarrow> \<not> has_bracket v"
  using ident_char_plain by (auto simp: has_bracket_def dest!: identifier_chars)

lemma takeWhile_until:
  "\<forall>c \<in> set xs. P c \<Longrightarrow> \<not> P x \<Longrightarrow> takeWhile P (xs @ x # ys) = xs"
  by (induction xs) auto

lemma dropWhile_until:
  "\<forall>c \<in> set xs. P c \<Longrightarrow> \<not> P x \<Longrightarrow> dropWhile P (xs @ x # ys) = x # ys"
  by (induction xs) auto

lemma parse_call_line:
  assumes "is_callee f" and "CHR ''('' \<notin> set f"
  shows "parse_call (f @ ''('' @ show_nat k @ '')'') = Call1 f k"
proof -
  let ?line = "f @ CHR ''('' # show_nat k @ '')''"
  from assms(2) have f: "\<forall>c \<in> set f. c \<noteq> CHR ''(''" by auto
  have t: "takeWhile (\<lambda>c. c \<noteq> CHR ''('') ?line = f"
    using f by (rule takeWhile_until) simp
  have d: "dropWhile (\<lambda>c. c \<noteq> CHR ''('') ?line = CHR ''('' # show_nat k @ '')''"
    using f by (rule dropWhile_until) simp
  show ?thesis
    using assms(1)
    by (simp add: parse_call_def Let_def t d butlast_append is_int_literal_show_nat read_nat_show_nat)
qed

lemma parse_call_var:
  assumes "is_callee f" and "CHR ''('' \<notin> set f" and "is_identifier v"
  shows "parse_call (f @ ''('' @ [CHR 0x22] @ v @ [CHR 0x22] @ '', '' @ v @ '')'') = Call2 f v v"
proof -
  let ?args = "CHR 0x22 # v @ CHR 0x22 # CHR '','' # CHR '' '' # v"
  let ?line = "f @ CHR ''('' # ?args @ '')''"
  from assms(2) have f: "\<forall>c \<in> set f. c \<noteq> CHR ''(''" by auto
  from identifier_no_quote [OF assms(3)] have v: "\<forall>c \<in> set v. c \<noteq> CHR 0x22" by auto
  have t: "takeWhile (\<lambda>c. c \<noteq> CHR ''('') ?line = f"
    using f by (rule takeWhile_until) simp
  have d: "dropWhile (\<lambda>c. c \<noteq> CHR ''('') ?line = CHR ''('' # ?args @ '')''"
    using f by (rule dropWhile_until) simp
  have b: "butlast (?args @ '')'') = ?args" by (simp add: butlast_append)
  have tv: "takeWhile (\<lambda>c. c \<noteq> CHR 0x22) (v @ CHR 0x22 # CHR '','' # CHR '' '' # v) = v"
    using v by (rule takeWhile_until) simp
  have dv: "dropWhile (\<lambda>c. c \<noteq> CHR 0x22) (v @ CHR 0x22 # CHR '','' # CHR '' '' # v)
              = CHR 0x22 # CHR '','' # CHR '' '' # v"
    using v by (rule dropWhile_until) simp
  have nolit: "\<not> is_int_literal ?args" by (simp add: is_int_literal_def is_digit_def)
  have "parse_call ?line = Call2 f v v"
    unfolding parse_call_def Let_def t d
    using assms(1,3) nolit
    by (simp only: list.sel b tv dv) (simp add: identifier_plain_text)
  then show ?thesis by simp
qed

lemma callees:
  "is_callee ''__trace_line__''" "is_callee ''__trace_var__''"
  "is_callee ''__memory_tracker__.take_snapshot''" "is_callee ''__record_memory__''"
  by code_simp+

lemma parse_trace_line: "parse_stmt (trace_line_stmt k) = Call1 ''__trace_line__'' k"
  using parse_call_line [of "''__trace_line__''" k]
  by (simp add: parse_stmt_def trace_line_stmt_def callees)

lemma parse_take_snapshot:
  "parse_stmt (take_snapshot_stmt k) = Call1 ''__memory_tracker__.take_snapshot'' k"
  using parse_call_line [of "''__memory_tracker__.take_snapshot''" k]
  by (simp add: parse_stmt_def take_snapshot_stmt_def callees)

lemma parse_trace_var:
  "is_identifier v \<Longrightarrow> parse_stmt (trace_var_stmt v) = Call2 ''__trace_var__'' v v"
  using parse_call_var [of "''__trace_var__''" v]
  by (simp add: parse_stmt_def trace_var_stmt_def callees)

lemma parse_record_memory:
  "is_identifier v \<Longrightarrow> parse_stmt (record_memory_stmt v) = Call2 ''__record_memory__'' v v"
  using parse_call_var [of "''__record_memory__''" v]
  by (simp add: parse_stmt_def record_memory_stmt_def callees)

subsection \<open>Lines of the instrumented text\<close>

lemma split_on_no_sep: "sep \<notin> set l \<Longrightarrow> split_on sep l = [l]"
  by (induction l) auto

lemma split_on_append:
  "sep \<notin> set l \<Longrightarrow> split_on sep (l @ sep # s) = l # split_on sep s"
  by (induction l) auto

lemma split_join:
  "ls \<noteq> [] \<Longrightarrow> \<forall>l \<in> set ls. sep \<notin> set l \<Longrightarrow> split_on sep (join_with sep ls) = ls"
proof (induction sep ls rule: join_with.induct)
  case (1 sep)
  then show ?case by simp
next
  case (2 sep l)
  then show ?case by (simp add: split_on_no_sep)
next
  case (3 sep l v va)
  then show ?case by (simp add: split_on_append)
qed

lemma split_on_lines: "\<forall>l \<in> set (split_on sep s). sep \<notin> set l"
proof (induction s)
  case Nil
  show ?case by simp
next
  case (Cons c s)
  then show ?case by (cases "split_on sep s") (auto split: if_splits)
qed

lemma set_strip: "set (strip s) \<subseteq> set s"
proof -
  have "set (dropWhile is_space (rev (dropWhile is_space s))) \<subseteq> set (rev (dropWhile is_space s))"
    by (rule set_dropWhileD [THEN subsetI])
  also have "\<dots> \<subseteq> set s" using set_dropWhileD [of _ is_space s] by auto
  finally show ?thesis by (simp add: strip_def)
qed

lemma var_stmts_no_newline:
  assumes "CHR 0x0A \<notin> set line" and "\<And>v. CHR 0x0A \<notin> set v \<Longrightarrow> CHR 0x0A \<notin> set (mk_var v)"
  shows "\<forall>l \<in> set (var_stmts mk_var line). CHR 0x0A \<notin> set l"
proof -
  have "set (takeWhile (\<lambda>c. c \<noteq> CHR ''='') line) \<subseteq> set line"
    using set_takeWhileD [of _ "\<lambda>c. c \<noteq> CHR ''=''" line] by auto
  with set_strip [of "takeWhile (\<lambda>c. c \<noteq> CHR ''='') line"] assms(1)
  have "CHR 0x0A \<notin> set (strip (takeWhile (\<lambda>c. c \<noteq> CHR ''='') line))" by blast
  then show ?thesis by (auto simp: var_stmts_def Let_def hd_split_on assms(2))
qed

lemma fold_no_newline:
  assumes mk_line: "\<And>n. CHR 0x0A \<notin> set (mk_line n)"
    and mk_var: "\<And>v. CHR 0x0A \<notin> set v \<Longrightarrow> CHR 0x0A \<notin> set (mk_var v)"
  shows "\<forall>l \<in> set ls. CHR 0x0A \<notin> set l \<Longrightarrow> \<forall>l \<in> set acc. CHR 0x0A \<notin> set l \<Longrightarrow>
         \<forall>l \<in> set (fst (fold (instrument_step mk_line mk_var) ls (acc, n))). CHR 0x0A \<notin> set l"
proof (induction ls arbitrary: acc n)
  case Nil
  then show ?case by simp
next
  case (Cons l ls)
  from Cons.prems(1) have l: "CHR 0x0A \<notin> set l" by simp
  let ?a = "if is_code_line l then [mk_line n] @ var_stmts mk_var l @ [l] else [l]"
  have step: "instrument_step mk_line mk_var l (acc, n) = (acc @ ?a, Suc n)"
    by (simp add: instrument_step_def)
  have "\<forall>x \<in> set (var_stmts mk_var l). CHR 0x0A \<notin> set x"
    by (rule var_stmts_no_newline [OF l]) (rule mk_var)
  with l mk_line have "\<forall>x \<in> set ?a. CHR 0x0A \<notin> set x" by simp
  with Cons.prems(2) have "\<forall>x \<in> set (acc @ ?a). CHR 0x0A \<notin> set x" by auto
  with Cons.IH [of "acc @ ?a" "Suc n"] Cons.prems(1) show ?case
    unfolding fold_simps comp_apply step by simp
qed

lemma fold_length:
  "length acc + length ls \<le> length (fst (fold (instrument_step mk_line mk_var) ls (acc, n)))"
proof (induction ls arbitrary: acc n)
  case Nil
  show ?case by simp
next
  case (Cons l ls)
  let ?a = "if is_code_line l then [mk_line n] @ var_stmts mk_var l @ [l] else [l]"
  have step: "instrument_step mk_line mk_var l (acc, n) = (acc @ ?a, Suc n)"
    by (simp add: instrument_step_def)
  have "length (acc @ ?a) + length ls \<le>
          length (fst (fold (instrument_step mk_line mk_var) ls (acc @ ?a, Suc n)))"
    by (rule Cons.IH)
  moreover have "length acc + 1 \<le> length (acc @ ?a)" by simp
  ultimately show ?case unfolding fold_simps comp_apply step by simp
qed

lemma stmt_no_newline:
  "CHR 0x0A \<notin> set (trace_line_stmt n)" "CHR 0x0A \<notin> set (take_snapshot_stmt n)"
  "CHR 0x0A \<notin> set v \<Longrightarrow> CHR 0x0A \<notin> set (trace_var_stmt v)"
  "CHR 0x0A \<notin> set v \<Longrightarrow> CHR 0x0A \<notin> set (record_memory_stmt v)"
  by (simp_all add: trace_line_stmt_def take_snapshot_stmt_def trace_var_stmt_def
      record_memory_stmt_def show_nat_no_newline)

lemma instrumented_lines:
  "split_on (CHR 0x0A) (instrument_code code) =
     fst (instrument_loop trace_line_stmt trace_var_stmt (split_on (CHR 0x0A) code))"
proof -
  let ?ls = "split_on (CHR 0x0A) code"
  let ?out = "fst (instrument_loop trace_line_stmt trace_var_stmt ?ls)"
  have free: "\<forall>l \<in> set ?out. CHR 0x0A \<notin> set l"
    unfolding instrument_loop_def
    by (rule fold_no_newline) (simp_all add: stmt_no_newline split_on_lines)
  have "length ?ls \<le> length ?out"
    using fold_length [of "[]" ?ls trace_line_stmt trace_var_stmt 1] by (simp add: instrument_loop_def)
  with split_on_nonempty [of "CHR 0x0A" code] have "?out \<noteq> []" by auto
  with free have "split_on (CHR 0x0A) (join_with (CHR 0x0A) ?out) = ?out" by (rule split_join [rotated -1])
  moreover have "instrument_code code = join_with (CHR 0x0A) ?out"
    by (cases "instrument_loop trace_line_stmt trace_var_stmt ?ls") (simp add: instrument_code_def)
  ultimately show ?thesis by simp
qed

lemma memory_instrumented_lines:
  "split_on (CHR 0x0A) (memory_instrument_code code) =
     fst (instrument_loop take_snapshot_stmt record_memory_stmt (split_on (CHR 0x0A) code)) @
     [take_snapshot_stmt (snd (instrument_loop take_snapshot_stmt record_memory_stmt (split_on (CHR 0x0A) code)))]"
proof -
  let ?ls = "split_on (CHR 0x0A) code"
  let ?loop = "instrument_loop take_snapshot_stmt record_memory_stmt ?ls"
  let ?out = "fst ?loop @ [take_snapshot_stmt (snd ?loop)]"
  have "\<forall>l \<in> set (fst ?loop). CHR 0x0A \<notin> set l"
    unfolding instrument_loop_def
    by (rule fold_no_newline) (simp_all add: stmt_no_newline split_on_lines)
  then have free: "\<forall>l \<in> set ?out. CHR 0x0A \<notin> set l" by (simp add: stmt_no_newline)
  have "?out \<noteq> []" by simp
  with free have "split_on (CHR 0x0A) (join_with (CHR 0x0A) ?out) = ?out" by (rule split_join [rotated -1])
  moreover have "memory_instrument_code code = join_with (CHR 0x0A) ?out"
    by (cases ?loop) (simp add: memory_instrument_code_def)
  ultimately show ?thesis by simp
qed

subsection \<open>Blank lines\<close>

lemma not_blank_start:
  assumes "c \<noteq> CHR 0x0D" and "\<not> is_py_space c" and "c \<noteq> CHR ''#''"
  shows "\<not> py_blank (c # cs)"
proof -
  obtain p ps where "split_on (CHR 0x0D) cs = p # ps"
    using split_on_nonempty [of "CHR 0x0D" cs] by (cases "split_on (CHR 0x0D) cs") auto
  with assms show ?thesis by (simp add: py_blank_def blank_physical_line_def)
qed

lemma injected_not_blank:
  "\<not> py_blank (trace_line_stmt k)" "\<not> py_blank (trace_var_stmt v)"
  "\<not> py_blank (take_snapshot_stmt k)" "\<not> py_blank (record_memory_stmt v)"
  by (simp_all add: not_blank_start is_py_space_def trace_line_stmt_def trace_var_stmt_def
      take_snapshot_stmt_def record_memory_stmt_def)

lemma blank_after_spaces:
  "py_blank l \<Longrightarrow> dropWhile is_space l = [] \<or> hd (dropWhile is_space l) = CHR ''#''"
proof (induction l)
  case Nil
  show ?case by simp
next
  case (Cons c cs)
  obtain p ps where sp: "split_on (CHR 0x0D) cs = p # ps"
    using split_on_nonempty [of "CHR 0x0D" cs] by (cases "split_on (CHR 0x0D) cs") auto
  show ?case
  proof (cases "c = CHR 0x0D")
    case True
    with Cons.prems have "py_blank cs" by (simp add: py_blank_def)
    moreover from True have "is_space c" by (simp add: is_space_def)
    ultimately show ?thesis using Cons.IH by simp
  next
    case False
    with Cons.prems sp have first: "blank_physical_line (c # p)"
      and others: "list_all blank_physical_line ps"
      by (simp_all add: py_blank_def)
    show ?thesis
    proof (cases "is_py_space c")
      case True
      with first have "blank_physical_line p" by (simp add: blank_physical_line_def)
      with others sp have "py_blank cs" by (simp add: py_blank_def)
      moreover from True have "is_space c" by (auto simp: is_py_space_def is_space_def)
      ultimately show ?thesis using Cons.IH by simp
    next
      case False
      with first have "c = CHR ''#''" by (simp add: blank_physical_line_def)
      then show ?thesis by (simp add: is_space_def)
    qed
  qed
qed

lemma py_blank_not_code: "py_blank l \<Longrightarrow> \<not> is_code_line l"
proof -
  assume "py_blank l"
  then have "dropWhile is_space l = [] \<or> hd (dropWhile is_space l) = CHR ''#''"
    by (rule blank_after_spaces)
  define d where "d = dropWhile is_space l"
  with \<open>dropWhile is_space l = [] \<or> hd (dropWhile is_space l) = CHR ''#''\<close>
  have cases: "d = [] \<or> hd d = CHR ''#''" by (simp only:)
  show ?thesis
  proof (cases d)
    case Nil
    then have "strip l = []" unfolding strip_def d_def [symmetric] by simp
    then show ?thesis by (simp add: is_code_line_def)
  next
    case (Cons c r)
    with cases have "d = CHR ''#'' # r" by simp
    then have d: "dropWhile is_space l = CHR ''#'' # r" by (simp only: d_def)
    have not_space: "\<not> is_space (CHR ''#'')" by (simp add: is_space_def)
    have "strip l = rev (dropWhile is_space (rev r @ [CHR ''#'']))"
      unfolding strip_def d by simp
    also have "\<dots> = CHR ''#'' # rev (dropWhile is_space (rev r))"
      using not_space by (simp add: dropWhile_append3)
    finally show ?thesis by (simp add: is_code_line_def startswith_def)
  qed
qed

lemma run_lines_blank:
  "\<forall>l \<in> set pre. py_blank l \<Longrightarrow> run_lines I H b (pre @ ls) e st = run_lines I H b ls e st"
  by (induction pre) auto

subsection \<open>The run stops at the recording statement\<close>

lemma split_callees:
  "split_on (CHR ''.'') ''__trace_line__'' = [''__trace_line__'']"
  "split_on (CHR ''.'') ''__trace_var__'' = [''__trace_var__'']"
  "split_on (CHR ''.'') ''__record_memory__'' = [''__record_memory__'']"
  "split_on (CHR ''.'') ''__memory_tracker__.take_snapshot'' = [''__memory_tracker__'', ''take_snapshot'']"
  by code_simp+

lemma run_execution_prefix:
  assumes "lookup b e ''__trace_line__'' = Bound (lv, LineHook)"
    and "lookup b e ''__trace_var__'' = Bound (vv, r)"
    and "lookup b e v = Unbound"
    and "is_identifier v"
  shows "snd (run_lines I H b (trace_line_stmt k # trace_var_stmt v # rest) e st)
           = Some (Raises (name_error v))"
  using assms
  by (simp add: injected_not_blank parse_trace_line parse_trace_var split_callees)

lemma run_memory_prefix:
  assumes "lookup b e ''__memory_tracker__'' = Bound (sv, TracerObject)"
    and "line_method H = ''take_snapshot''"
    and "lookup b e ''__record_memory__'' = Bound (vv, r)"
    and "lookup b e v = Unbound"
    and "is_identifier v"
  shows "snd (run_lines I H b (take_snapshot_stmt k # record_memory_stmt v # rest) e st)
           = Some (Raises (name_error v))"
  using assms
  by (simp add: injected_not_blank parse_take_snapshot parse_record_memory split_callees)

lemma prepared_globals:
  "e n = Some x \<Longrightarrow> setup_annotations I text (exec_globals I e) n = Some x"
  by (auto simp: setup_annotations_def exec_globals_def split: option.splits)

lemma installed_tracer:
  "lookup b (setup_annotations I text (exec_globals I (install_tracer objs e))) ''__trace_line__''
     = Bound (line_hook_value objs, LineHook)"
  "lookup b (setup_annotations I text (exec_globals I (install_tracer objs e))) ''__trace_var__''
     = Bound (var_hook_value objs, VarHook)"
  by (simp_all add: lookup_def prepared_globals install_tracer_def)

lemma installed_tracker:
  "lookup b (setup_annotations I text (exec_globals I (install_tracker objs e))) ''__memory_tracker__''
     = Bound (self_value objs, TracerObject)"
  "lookup b (setup_annotations I text (exec_globals I (install_tracker objs e))) ''__record_memory__''
     = Bound (var_hook_value objs, VarHook)"
  by (simp_all add: lookup_def prepared_globals install_tracker_def)

text \<open>
  Claim C10 (first assignment to a fresh name), as amended. Lines are the pieces of the
  source between line feeds, as the instrumenters split it. Take a source in which every
  line before some line holds no statement for the interpreter (only blank physical lines
  and comments), and that line is a simple assignment to a name written in ASCII. If the
  name gives nothing when the instrumented text starts to run, that is, it is bound
  neither in the globals \<open>exec\<close> runs with (the supplied environment, the tracer's own
  names, \<open>__builtins__\<close>, and \<open>__annotations__\<close> when the text makes the
  interpreter set it up) nor in the builtins, then the recording statement runs before
  the assignment and raises, and each of \<open>visualize_execution\<close> and
  \<open>visualize_memory\<close> returns a list of one error string: the text of the parse
  error, of the compile error, or \<open>name ... is not defined\<close>. A name that is absent
  from the supplied environment but is a builtin, such as \<open>id\<close>, does not raise.
\<close>

theorem first_assignment_to_unresolved_name:
  fixes I :: "code_visualizer interpreter" and J :: "memory_visualizer interpreter"
  assumes code: "split_on (CHR 0x0A) code = pre @ line # post"
    and pre: "\<forall>l \<in> set pre. py_blank l"
    and line: "is_code_line line" "CHR ''='' \<in> set line" "\<not> startswith (strip line) ''def ''"
    and name: "strip (takeWhile (\<lambda>c. c \<noteq> CHR ''='') line) = name" "is_identifier name"
    and unresolved:
      "resolve_at_start I (instrument_code code) (install_tracer objs execution_env) name = Unbound"
      "resolve_at_start J (memory_instrument_code code) (install_tracker mobjs execution_env) name = Unbound"
  shows "visualize_execution parse I objs code execution_env self =
           Some [''Visualization error: '' @
              (case parse code of
                 Inl err \<Rightarrow> err
               | Inr tree \<Rightarrow>
                   (case compile_error I (instrument_code code) of
                      Some err \<Rightarrow> err
                    | None \<Rightarrow> name_error name))] \<and>
         visualize_memory J mobjs code execution_env tracker =
           Some [''Memory visualization error: '' @
              (case compile_error J (memory_instrument_code code) of
                 Some err \<Rightarrow> err
               | None \<Rightarrow> name_error name)]"
proof -
  let ?text = "instrument_code code" and ?mtext = "memory_instrument_code code"
  let ?e = "install_tracer objs execution_env" and ?me = "install_tracker mobjs execution_env"
  from pre have plain: "\<forall>l \<in> set pre. \<not> is_code_line l" by (simp add: py_blank_not_code)
  from name have nobr: "\<not> has_bracket (strip (takeWhile (\<lambda>c. c \<noteq> CHR ''='') line))"
    by (simp add: identifier_no_bracket)
  have shape: "\<exists>rest. fst (instrument_loop mk_line mk_var (pre @ line # post)) =
      pre @ [mk_line (length pre + 1), mk_var name, line] @ rest" for mk_line mk_var
    using first_assignment_recorded_before_it_runs [OF plain line nobr, of mk_line mk_var post]
    by (simp only: name)
  have exec_run: "snd (exec I execution_hooks ?text ?e self) = Some (Raises (name_error name))"
    if "compile_error I ?text = None"
  proof -
    let ?b = "builtins_of I (exec_globals I ?e)"
    let ?g = "setup_annotations I ?text (exec_globals I ?e)"
    from shape [of trace_line_stmt trace_var_stmt] obtain rest where ls:
      "split_on (CHR 0x0A) ?text =
         pre @ trace_line_stmt (length pre + 1) # trace_var_stmt name # line # rest"
      by (auto simp: instrumented_lines code)
    from unresolved(1) have un: "lookup ?b ?g name = Unbound"
      by (simp add: resolve_at_start_def Let_def)
    from that have "exec I execution_hooks ?text ?e self =
        run_lines I execution_hooks ?b (split_on (CHR 0x0A) ?text) ?g self"
      by (simp add: exec_def Let_def)
    also have "\<dots> = run_lines I execution_hooks ?b
        (trace_line_stmt (length pre + 1) # trace_var_stmt name # line # rest) ?g self"
      unfolding ls by (rule run_lines_blank [OF pre])
    finally show ?thesis
      by (simp only: run_execution_prefix [OF installed_tracer un name(2)])
  qed
  have mem_run: "snd (exec J memory_hooks ?mtext ?me tracker) = Some (Raises (name_error name))"
    if "compile_error J ?mtext = None"
  proof -
    let ?b = "builtins_of J (exec_globals J ?me)"
    let ?g = "setup_annotations J ?mtext (exec_globals J ?me)"
    from shape [of take_snapshot_stmt record_memory_stmt] obtain rest where ls:
      "split_on (CHR 0x0A) ?mtext =
         pre @ take_snapshot_stmt (length pre + 1) # record_memory_stmt name # line # rest"
      by (auto simp: memory_instrumented_lines code)
    have m: "line_method memory_hooks = ''take_snapshot''" by (simp add: memory_hooks_def)
    from unresolved(2) have un: "lookup ?b ?g name = Unbound"
      by (simp add: resolve_at_start_def Let_def)
    from that have "exec J memory_hooks ?mtext ?me tracker =
        run_lines J memory_hooks ?b (split_on (CHR 0x0A) ?mtext) ?g tracker"
      by (simp add: exec_def Let_def)
    also have "\<dots> = run_lines J memory_hooks ?b
        (take_snapshot_stmt (length pre + 1) # record_memory_stmt name # line # rest) ?g tracker"
      unfolding ls by (rule run_lines_blank [OF pre])
    finally show ?thesis
      by (simp only: run_memory_prefix [OF installed_tracker(1) m installed_tracker(2) un name(2)])
  qed
  have "visualize_execution parse I objs code execution_env self =
      Some [''Visualization error: '' @
         (case parse code of
            Inl err \<Rightarrow> err
          | Inr tree \<Rightarrow>
              (case compile_error I ?text of
                 Some err \<Rightarrow> err
               | None \<Rightarrow> name_error name))]"
  proof (cases "parse code")
    case (Inl err)
    then show ?thesis by (simp add: visualize_execution_def)
  next
    case (Inr tree)
    show ?thesis
    proof (cases "compile_error I ?text")
      case None
      from exec_run [OF None] obtain s where
        "exec I execution_hooks ?text ?e self = (s, Some (Raises (name_error name)))"
        by (cases "exec I execution_hooks ?text ?e self") auto
      with Inr None show ?thesis by (simp add: visualize_execution_def)
    next
      case (Some err)
      with Inr show ?thesis by (simp add: visualize_execution_def exec_def)
    qed
  qed
  moreover have "visualize_memory J mobjs code execution_env tracker =
      Some [''Memory visualization error: '' @
         (case compile_error J ?mtext of
            Some err \<Rightarrow> err
          | None \<Rightarrow> name_error name)]"
  proof (cases "compile_error J ?mtext")
    case None
    from mem_run [OF None] obtain s where
      "exec J memory_hooks ?mtext ?me tracker = (s, Some (Raises (name_error name)))"
      by (cases "exec J memory_hooks ?mtext ?me tracker") auto
    with None show ?thesis by (simp add: visualize_memory_def)
  next
    case (Some err)
    then show ?thesis by (simp add: visualize_memory_def exec_def)
  qed
  ultimately show ?thesis by (rule conjI)
qed

theorem first_assignment_to_unresolved_name_witness:
  "visualize_execution (\<lambda>code. Inr tree_total_assign) sample_interpreter sample_tracer
     (''# setup'' @ [CHR 0x0D] @ ''\<newline>'' @ [CHR 0x0D] @ ''\<newline>total = 0'' @ [CHR 0x0D] @ ''\<newline>print(total)'')
     Map.empty new_code_visualizer =
     Some [''Visualization error: name '' @ [CHR 0x27] @ ''total'' @ [CHR 0x27] @ '' is not defined''] \<and>
   visualize_memory sample_interpreter sample_tracer
     (''# setup'' @ [CHR 0x0D] @ ''\<newline>'' @ [CHR 0x0D] @ ''\<newline>total = 0'' @ [CHR 0x0D] @ ''\<newline>print(total)'')
     Map.empty new_memory_visualizer =
     Some [''Memory visualization error: name '' @ [CHR 0x27] @ ''total'' @ [CHR 0x27] @ '' is not defined'']"
proof -
  let ?code = "''# setup'' @ [CHR 0x0D] @ ''\<newline>'' @ [CHR 0x0D] @ ''\<newline>total = 0'' @ [CHR 0x0D] @ ''\<newline>print(total)''"
  let ?pre = "[''# setup'' @ [CHR 0x0D], [CHR 0x0D]]"
  let ?line = "''total = 0'' @ [CHR 0x0D]"
  have code: "split_on (CHR 0x0A) ?code = ?pre @ ?line # [''print(total)'']"
    by code_simp
  have pre: "\<forall>l \<in> set ?pre. py_blank l" by code_simp
  have l1: "is_code_line ?line" by code_simp
  have l2: "CHR ''='' \<in> set ?line" by simp
  have l3: "\<not> startswith (strip ?line) ''def ''" by code_simp
  have n1: "strip (takeWhile (\<lambda>c. c \<noteq> CHR ''='') ?line) = ''total''" by code_simp
  have n2: "is_identifier ''total''" by code_simp
  have u1: "resolve_at_start (sample_interpreter :: code_visualizer interpreter) (instrument_code ?code)
              (install_tracer sample_tracer Map.empty) ''total'' = Unbound"
    by (simp add: resolve_at_start_def lookup_def setup_annotations_def exec_globals_def
        install_tracer_def sample_interpreter_def)
  have u2: "resolve_at_start (sample_interpreter :: memory_visualizer interpreter) (memory_instrument_code ?code)
              (install_tracker sample_tracer Map.empty) ''total'' = Unbound"
    by (simp add: resolve_at_start_def lookup_def setup_annotations_def exec_globals_def
        install_tracker_def sample_interpreter_def)
  from first_assignment_to_unresolved_name [OF code pre l1 l2 l3 n1 n2 u1 u2,
         of "\<lambda>code. Inr tree_total_assign" new_code_visualizer new_memory_visualizer]
  show ?thesis by (simp add: sample_interpreter_def name_error_def)
qed

theorem first_assignment_to_unresolved_name_counterexample:
  "split_on (CHR 0x0A) ''id = 1'' = [''id = 1''] \<and>
   strip (takeWhile (\<lambda>c. c \<noteq> CHR ''='') ''id = 1'') = ''id'' \<and>
   is_identifier ''id'' \<and>
   (Map.empty :: env) ''id'' = None \<and>
   visualize_execution (\<lambda>code. Inr tree_id_assign) sample_interpreter sample_tracer
     ''id = 1'' Map.empty new_code_visualizer =
     Some [''Step 1: Executing line 1'',
           ''Step 2: Variable '' @ [CHR 0x27] @ ''id'' @ [CHR 0x27]
             @ '' = <builtin_function_or_method object at 31>'']"
  by code_simp

end
